theory Spec2Isabelle
  imports Main "HOL-Library.Word"
begin

section \<open>Byte strings and keys\<close>

text \<open>
  Go's \<^verbatim>\<open>[]byte\<close> is a list of 8-bit words, Go's \<^verbatim>\<open>string\<close> a list of
  characters (bytes); \<^verbatim>\<open>len\<close> is \<open>length\<close> on both.
\<close>

type_synonym byte = "8 word"
type_synonym bytes = "byte list"

text \<open>
  The builtin \<^verbatim>\<open>copy(dst[off:], src)\<close>: it overwrites \<open>dst\<close> from position \<open>off\<close>
  with as many elements of \<open>src\<close> as fit, and leaves the rest of \<open>dst\<close> alone.
\<close>

definition copy_at :: "'a list \<Rightarrow> nat \<Rightarrow> 'a list \<Rightarrow> 'a list" where
  "copy_at dst off src =
     take off dst @ take (length dst - off) src @ drop (off + length src) dst"

text \<open>
  \<^verbatim>\<open>toBinaryKey(uaid, chid)\<close>. The Go function also returns an error, which is
  \<^verbatim>\<open>nil\<close> on every path; the model returns the key alone.
\<close>

definition toBinaryKey :: "bytes \<Rightarrow> bytes \<Rightarrow> bytes" where
  "toBinaryKey uaid chid =
     (let key = replicate 32 (0 :: byte);
          aoff = 16 - int (length uaid);
          aoff = (if aoff < 0 then 0 else aoff);
          boff = 32 - int (length chid);
          boff = (if boff < 16 then 16 else boff);
          key = copy_at key (nat aoff) uaid;
          key = copy_at key (nat boff) chid
      in key)"

section \<open>User-readable keys\<close>

text \<open>
  \<^verbatim>\<open>strings.SplitN(key, ".", 2)\<close>: the whole string when it holds no dot, else
  the part before the first dot and the part after it.
\<close>

fun cut_dot :: "string \<Rightarrow> (string \<times> string) option" where
  "cut_dot [] = None"
| "cut_dot (c # cs) =
     (if c = CHR ''.'' then Some ([], cs)
      else (case cut_dot cs of None \<Rightarrow> None | Some (a, b) \<Rightarrow> Some (c # a, b)))"

definition SplitN_dot_2 :: "string \<Rightarrow> string list" where
  "SplitN_dot_2 s = (case cut_dot s of None \<Rightarrow> [s] | Some (a, b) \<Rightarrow> [a, b])"

text \<open>\<^verbatim>\<open>KeyToIDs(key)\<close> returns \<open>(suaid, schid, ok)\<close>; the strings stay empty when \<open>ok\<close> is false.\<close>

definition KeyToIDs :: "string \<Rightarrow> string \<times> string \<times> bool" where
  "KeyToIDs key =
     (let items = SplitN_dot_2 key
      in if length items = 2 then (items ! 0, items ! 1, True) else ([], [], False))"

text \<open>\<^verbatim>\<open>IDsToKey(suaid, schid)\<close> returns \<open>(key, ok)\<close>; the key stays empty when \<open>ok\<close> is false.\<close>

definition IDsToKey :: "string \<Rightarrow> string \<Rightarrow> string \<times> bool" where
  "IDsToKey suaid schid =
     (if length suaid > 0 \<and> length schid > 0 then (suaid @ ''.'' @ schid, True)
      else ([], False))"

section \<open>Errors\<close>

text \<open>
  The error values of package \<^verbatim>\<open>sperrors\<close> that the adapter returns. The package
  lies outside the adapter: the values are told apart by identity, and the text that
  their \<^verbatim>\<open>Error()\<close> method gives is a parameter of the model.
\<close>

datatype sperror =
    NoChannelError
  | InvalidPrimaryKeyError
  | InvalidChannelError
  | MissingDataError
  | NoDataToStoreError

text \<open>
  The errors an adapter call can return: one of \<^verbatim>\<open>sperrors\<close>, the adapter's own
  \<^verbatim>\<open>ErrPoolSaturated\<close>, \<^verbatim>\<open>io.EOF\<close> from a closed pool, or an error of the memcached
  driver, which carries its text.
\<close>

datatype error =
    Sp sperror
  | ErrPoolSaturated
  | EOF
  | ClientError string

fun Error :: "(sperror \<Rightarrow> string) \<Rightarrow> error \<Rightarrow> string" where
  "Error txt (Sp e) = txt e"
| "Error txt ErrPoolSaturated = ''Connection pool saturated''"
| "Error txt EOF = ''EOF''"
| "Error txt (ClientError m) = m"

text \<open>
  \<^verbatim>\<open>strings.Contains(s, substr)\<close>: \<open>substr\<close> occurs in \<open>s\<close> as a contiguous block.
\<close>

fun HasPrefix :: "string \<Rightarrow> string \<Rightarrow> bool" where
  "HasPrefix s [] = True"
| "HasPrefix [] (p # ps) = False"
| "HasPrefix (c # cs) (p # ps) = (c = p \<and> HasPrefix cs ps)"

fun Contains :: "string \<Rightarrow> string \<Rightarrow> bool" where
  "Contains [] substr = HasPrefix [] substr"
| "Contains (c # cs) substr = (HasPrefix (c # cs) substr \<or> Contains cs substr)"

text \<open>\<^verbatim>\<open>isMissing(err)\<close>: the literal is the first argument, the error's text the second.\<close>

definition isMissing :: "(sperror \<Rightarrow> string) \<Rightarrow> error \<Rightarrow> bool" where
  "isMissing txt err = Contains ''NOT FOUND'' (Error txt err)"

section \<open>Channel records and lists of channel IDs\<close>

text \<open>The channel record status constants (\<^verbatim>\<open>iota\<close> counts from 0); the state is an \<^verbatim>\<open>int8\<close>.\<close>

definition DELETED :: "8 word" where "DELETED = 0"
definition LIVE :: "8 word" where "LIVE = 1"
definition REGISTERED :: "8 word" where "REGISTERED = 2"

text \<open>
  The channel record \<^verbatim>\<open>cr\<close>: state \<open>S\<close> (\<^verbatim>\<open>int8\<close>), version \<open>V\<close> (\<^verbatim>\<open>uint64\<close>) and
  last-touched time \<open>L\<close> (\<^verbatim>\<open>int64\<close>, unix seconds; compared as a signed number).
\<close>

record cr =
  S :: "8 word"
  V :: "64 word"
  L :: "64 word"

text \<open>The list of decoded channel IDs, \<^verbatim>\<open>ia\<close>.\<close>

type_synonym ia = "bytes list"

text \<open>
  \<^verbatim>\<open>bytes.Compare\<close>: lexicographic order on unsigned bytes, a proper prefix first;
  \<^verbatim>\<open>Less(i, j)\<close> of the sort interface is \<^verbatim>\<open>Compare < 0\<close>.
\<close>

fun Compare :: "bytes \<Rightarrow> bytes \<Rightarrow> int" where
  "Compare [] [] = 0"
| "Compare [] (y # ys) = - 1"
| "Compare (x # xs) [] = 1"
| "Compare (x # xs) (y # ys) = (if x < y then - 1 else if y < x then 1 else Compare xs ys)"

definition Less :: "bytes \<Rightarrow> bytes \<Rightarrow> bool" where
  "Less a b = (Compare a b < 0)"

text \<open>
  \<^verbatim>\<open>sort.Sort(arr)\<close> orders the list by \<open>Less\<close>. The order is total on byte strings and
  only equal strings tie, so every sorting algorithm gives one and the same list;
  the model inserts one element after the other.
\<close>

fun insert_sorted :: "bytes \<Rightarrow> ia \<Rightarrow> ia" where
  "insert_sorted x [] = [x]"
| "insert_sorted x (y # ys) = (if Less y x then y # insert_sorted x ys else x # y # ys)"

fun Sort :: "ia \<Rightarrow> ia" where
  "Sort [] = []"
| "Sort (x # xs) = insert_sorted x (Sort xs)"

text \<open>
  \<^verbatim>\<open>IndexOf(val)\<close>: the index of the first element equal to \<open>val\<close>, or \<open>-1\<close>. The
  first argument of the helper is the loop's \<^verbatim>\<open>index\<close>.
\<close>

fun IndexOf_from :: "int \<Rightarrow> ia \<Rightarrow> bytes \<Rightarrow> int" where
  "IndexOf_from index [] val = - 1"
| "IndexOf_from index (v # vs) val =
     (if v = val then index else IndexOf_from (index + 1) vs val)"

definition IndexOf :: "ia \<Rightarrow> bytes \<Rightarrow> int" where
  "IndexOf channelIDs val = IndexOf_from 0 channelIDs val"

subsection \<open>Slices\<close>

text \<open>
  A Go slice is a window on a backing array, and \<^verbatim>\<open>append\<close> within the capacity
  writes into that array. Where the code depends on this, a slice is the pair of its
  backing array (from the slice's first element on) and its length; the elements of
  the slice are the first \<open>len\<close> cells of the array.
\<close>

type_synonym slice = "bytes list \<times> nat"

definition elems :: "slice \<Rightarrow> ia" where
  "elems s = take (snd s) (fst s)"

definition slice_of :: "ia \<Rightarrow> slice" where
  "slice_of xs = (xs, length xs)"

text \<open>
  \<^verbatim>\<open>remove(list, pos)\<close>. \<^verbatim>\<open>append(list[:pos], list[pos+1:]...)\<close> moves the cells
  after \<open>pos\<close> one place down inside the backing array and returns a slice that is
  one shorter; the cell that was the last of the slice keeps its value. With
  \<open>pos > len(list)\<close> the slice expression \<^verbatim>\<open>list[pos+1:]\<close> is out of range and the Go
  runtime panics: the result \<open>None\<close>.
\<close>

definition remove :: "slice \<Rightarrow> int \<Rightarrow> slice option" where
  "remove list pos =
     (let a = fst list; n = snd list
      in if pos < 0 \<or> pos = int n then Some list
         else if int n < pos then None
         else Some (take (nat pos) a @ drop (nat pos + 1) (take n a) @ drop (n - 1) a, n - 1))"

text \<open>
  The loop of \<^verbatim>\<open>fetchAppIDArray\<close> that pares out duplicates:
  \<^verbatim>\<open>for i, chid := range result { if dup := result[i+1:].IndexOf(chid); dup > -1 { result = remove(result, i+dup) } }\<close>.
  The \<^verbatim>\<open>range\<close> clause fixes the number \<open>n\<close> of rounds and the backing array when the
  loop starts, and reads \<open>chid\<close> from cell \<open>i\<close> of the array in round \<open>i\<close>; the body works
  on the current value of the variable \<open>result\<close>. \<^verbatim>\<open>result[i+1:]\<close> panics when \<open>i + 1\<close>
  is beyond the current length of \<open>result\<close>: the result \<open>None\<close>.
\<close>

function pare :: "slice \<Rightarrow> nat \<Rightarrow> nat \<Rightarrow> slice option" where
  "pare result n i =
     (if i < n then
        (let chid = fst result ! i
         in if snd result < i + 1 then None
            else (let dup = IndexOf (drop (i + 1) (elems result)) chid
                  in if dup > - 1
                     then (case remove result (int i + dup) of
                             None \<Rightarrow> None
                           | Some r \<Rightarrow> pare r n (i + 1))
                     else pare result n (i + 1)))
      else Some result)"
  by pat_completeness auto
termination
  by (relation "measure (\<lambda>(result, n, i). n - i)") auto

declare pare.simps [simp del]

text \<open>\<^verbatim>\<open>hex.EncodeToString\<close>: two lower-case hexadecimal digits for each byte.\<close>

definition hexdigit :: "nat \<Rightarrow> char" where
  "hexdigit d = ''0123456789abcdef'' ! d"

definition hex_EncodeToString :: "bytes \<Rightarrow> string" where
  "hex_EncodeToString bs =
     concat (map (\<lambda>b. [hexdigit (unat b div 16), hexdigit (unat b mod 16)]) bs)"

section \<open>The memcached adapter\<close>

subsection \<open>Configuration and results\<close>

text \<open>
  The fields of \<^verbatim>\<open>EmceeConfig\<close> that the modelled operations read: the three record
  timeouts (\<^verbatim>\<open>time.Duration\<close>, nanoseconds) and the pool limit.
\<close>

record EmceeConfig =
  MaxConns :: int
  ChannelTimeout :: int
  RegisterTimeout :: int
  UnregisterTimeout :: int

text \<open>The defaults of \<^verbatim>\<open>ConfigStruct()\<close>: 400 connections, 3 days, 3 hours, 1 day.\<close>

definition ConfigStruct :: EmceeConfig where
  "ConfigStruct =
     \<lparr>MaxConns = 400,
      ChannelTimeout = 3 * 24 * 3600000000000,
      RegisterTimeout = 3 * 3600000000000,
      UnregisterTimeout = 1 * 24 * 3600000000000\<rparr>"

text \<open>
  What a call of the adapter comes to: it returns a value (\<open>Ok\<close>; for an operation
  that returns only an error, \<open>Ok ()\<close> is \<^verbatim>\<open>nil\<close>), it returns an error, or a
  runtime panic unwinds it. No caller inside the adapter recovers from the panic of
  the duplicate-paring loop, so a panic of \<^verbatim>\<open>fetchAppIDArray\<close> is the outcome of
  the operation that called it.
\<close>

datatype 'a result = Ok 'a | Err error | Panic

text \<open>An update returned by \<^verbatim>\<open>FetchAll\<close>: the hex-encoded channel ID and the version.\<close>

record Update =
  ChannelID :: string
  Version :: "64 word"

subsection \<open>The world around the adapter\<close>

text \<open>
  How an acquisition from the connection pool ends, as \<^verbatim>\<open>getClient\<close> sees it: a
  connection arrives, the close signal fires first (\<^verbatim>\<open>io.EOF\<close>), or the pool
  answers with nothing or not in time (\<^verbatim>\<open>ErrPoolSaturated\<close>).
\<close>

datatype pool_reply = Acquired | PoolClosed | PoolSaturated

text \<open>
  The state the adapter works on. It holds the adapter's configuration; the text of the
  \<^verbatim>\<open>sperrors\<close> values; what memcached stores, as one map for the lists of channel IDs
  (written under the device ID) and one for the channel records (written under the
  32-byte primary key, each with the time-to-live of its last write), so a value is read
  back with the type it was written with; and what the surroundings will do next. The Base64
  rendering of a key (\<^verbatim>\<open>encodeKey\<close>) is one-to-one, so the maps are indexed by the
  bytes that are encoded. Expiry of records belongs to real time and is left out.

  The surroundings are scripts that the calls consume: \<open>pool\<close> lists the outcomes of
  the coming pool acquisitions and \<open>net\<close> those of the coming driver calls
  (\<open>Some text\<close>: the call fails with an error of that text and changes nothing;
  \<open>None\<close>: memcached answers). When a script is used up, every later acquisition and
  call goes through. \<open>clock n\<close> is what the \<open>n\<close>-th reading of
  \<^verbatim>\<open>time.Now().UTC().Unix()\<close> gives, and \<open>reads\<close> counts the readings made.
\<close>

record world =
  config :: EmceeConfig
  sptext :: "sperror \<Rightarrow> string"
  sets :: "bytes \<rightharpoonup> ia"
  recs :: "bytes \<rightharpoonup> cr \<times> int"
  pool :: "pool_reply list"
  net :: "string option list"
  clock :: "nat \<Rightarrow> 64 word"
  reads :: nat

definition time_Now_Unix :: "world \<Rightarrow> 64 word \<times> world" where
  "time_Now_Unix w = (clock w (reads w), w\<lparr>reads := Suc (reads w)\<rparr>)"

text \<open>\<^verbatim>\<open>getClient()\<close>: \<open>None\<close> stands for a connection and the error \<^verbatim>\<open>nil\<close>.\<close>

definition getClient :: "world \<Rightarrow> error option \<times> world" where
  "getClient w =
     (case pool w of
        [] \<Rightarrow> (None, w)
      | r # rs \<Rightarrow>
          ((case r of
              Acquired \<Rightarrow> None
            | PoolClosed \<Rightarrow> Some EOF
            | PoolSaturated \<Rightarrow> Some ErrPoolSaturated),
           w\<lparr>pool := rs\<rparr>))"

text \<open>The next entry of the driver's script.\<close>

definition net_next :: "world \<Rightarrow> string option \<times> world" where
  "net_next w = (case net w of [] \<Rightarrow> (None, w) | f # fs \<Rightarrow> (f, w\<lparr>net := fs\<rparr>))"

text \<open>
  The driver calls \<^verbatim>\<open>client.Get\<close> and \<^verbatim>\<open>client.Set\<close>, for a list of channel IDs
  and for a channel record. A key that memcached does not hold gives the driver's
  missing-key error, whose text is \<^verbatim>\<open>NOT FOUND\<close>, the text \<^verbatim>\<open>isMissing\<close> looks for.
\<close>

definition Get_ia :: "world \<Rightarrow> bytes \<Rightarrow> (error + ia) \<times> world" where
  "Get_ia w key =
     (case net_next w of
        (Some text, w1) \<Rightarrow> (Inl (ClientError text), w1)
      | (None, w1) \<Rightarrow>
          (case sets w1 key of
             None \<Rightarrow> (Inl (ClientError ''NOT FOUND''), w1)
           | Some arr \<Rightarrow> (Inr arr, w1)))"

definition Set_ia :: "world \<Rightarrow> bytes \<Rightarrow> ia \<Rightarrow> error option \<times> world" where
  "Set_ia w key arr =
     (case net_next w of
        (Some text, w1) \<Rightarrow> (Some (ClientError text), w1)
      | (None, w1) \<Rightarrow> (None, w1\<lparr>sets := (sets w1)(key \<mapsto> arr)\<rparr>))"

definition Get_cr :: "world \<Rightarrow> bytes \<Rightarrow> (error + cr) \<times> world" where
  "Get_cr w key =
     (case net_next w of
        (Some text, w1) \<Rightarrow> (Inl (ClientError text), w1)
      | (None, w1) \<Rightarrow>
          (case recs w1 key of
             None \<Rightarrow> (Inl (ClientError ''NOT FOUND''), w1)
           | Some (rec, ttl) \<Rightarrow> (Inr rec, w1)))"

definition Set_cr :: "world \<Rightarrow> bytes \<Rightarrow> cr \<Rightarrow> int \<Rightarrow> error option \<times> world" where
  "Set_cr w key rec ttl =
     (case net_next w of
        (Some text, w1) \<Rightarrow> (Some (ClientError text), w1)
      | (None, w1) \<Rightarrow> (None, w1\<lparr>recs := (recs w1)(key \<mapsto> (rec, ttl))\<rparr>))"

subsection \<open>Reading and writing lists and records\<close>

text \<open>
  \<^verbatim>\<open>fetchAppIDArray(uaid)\<close>. A \<^verbatim>\<open>nil\<close> list is the empty list. A missing key is
  answered with no list and no error.
\<close>

definition fetchAppIDArray :: "world \<Rightarrow> bytes \<Rightarrow> ia result \<times> world" where
  "fetchAppIDArray w uaid =
     (if length uaid = 0 then (Ok [], w)
      else (case getClient w of
              (Some err, w1) \<Rightarrow> (Err err, w1)
            | (None, w1) \<Rightarrow>
                (case Get_ia w1 uaid of
                   (Inl err, w2) \<Rightarrow>
                     (if isMissing (sptext w2) err then (Ok [], w2) else (Err err, w2))
                 | (Inr result, w2) \<Rightarrow>
                     (case pare (slice_of result) (length result) 0 of
                        None \<Rightarrow> (Panic, w2)
                      | Some r \<Rightarrow> (Ok (elems r), w2)))))"

text \<open>\<^verbatim>\<open>storeAppIDArray(uaid, arr)\<close>: \<open>None\<close> is the error \<^verbatim>\<open>nil\<close>.\<close>

definition storeAppIDArray :: "world \<Rightarrow> bytes \<Rightarrow> ia \<Rightarrow> error option \<times> world" where
  "storeAppIDArray w uaid arr =
     (if length uaid = 0 then (Some (Sp MissingDataError), w)
      else (case getClient w of
              (Some err, w1) \<Rightarrow> (Some err, w1)
            | (None, w1) \<Rightarrow>
                (case Set_ia w1 uaid (Sort arr) of
                   (Some err, w2) \<Rightarrow> (Some err, w2)
                 | (None, w2) \<Rightarrow> (None, w2))))"

text \<open>
  \<^verbatim>\<open>fetchRec(pk)\<close>. The record is allocated with all fields zero before the driver
  is asked, and that record is what the caller gets when the key is missing.
\<close>

definition fetchRec :: "world \<Rightarrow> bytes \<Rightarrow> (error + cr) \<times> world" where
  "fetchRec w pk =
     (if length pk = 0 then (Inl (Sp InvalidPrimaryKeyError), w)
      else (case getClient w of
              (Some err, w1) \<Rightarrow> (Inl err, w1)
            | (None, w1) \<Rightarrow>
                (let result = \<lparr>S = 0, V = 0, L = 0\<rparr>
                 in (case Get_cr w1 pk of
                       (Inl err, w2) \<Rightarrow>
                         (if \<not> isMissing (sptext w2) err then (Inl err, w2)
                          else (Inr result, w2))
                     | (Inr stored, w2) \<Rightarrow> (Inr stored, w2)))))"

text \<open>
  \<^verbatim>\<open>storeRec(pk, rec)\<close>; \<open>rec\<close> is a pointer, \<open>None\<close> the \<^verbatim>\<open>nil\<close> pointer. An error
  of \<^verbatim>\<open>client.Set\<close> is logged and \<^verbatim>\<open>nil\<close> is returned.
\<close>

definition storeRec :: "world \<Rightarrow> bytes \<Rightarrow> cr option \<Rightarrow> error option \<times> world" where
  "storeRec w pk rec =
     (if length pk = 0 then (Some (Sp InvalidPrimaryKeyError), w)
      else (case rec of
              None \<Rightarrow> (Some (Sp NoDataToStoreError), w)
            | Some r \<Rightarrow>
                (let ttl = (if S r = DELETED then UnregisterTimeout (config w)
                            else if S r = REGISTERED then RegisterTimeout (config w)
                            else ChannelTimeout (config w));
                     (now, w1) = time_Now_Unix w;
                     r = r\<lparr>L := now\<rparr>
                 in (case getClient w1 of
                       (Some err, w2) \<Rightarrow> (Some err, w2)
                     | (None, w2) \<Rightarrow>
                         (case Set_cr w2 pk r ttl of
                            (Some err, w3) \<Rightarrow> (None, w3)
                          | (None, w3) \<Rightarrow> (None, w3))))))"

subsection \<open>The operations of the adapter\<close>

text \<open>\<^verbatim>\<open>Exists(uaid)\<close>: \<^verbatim>\<open>err == nil\<close> for the error of \<^verbatim>\<open>fetchAppIDArray\<close>.\<close>

definition Exists :: "world \<Rightarrow> bytes \<Rightarrow> bool result \<times> world" where
  "Exists w uaid =
     (case fetchAppIDArray w uaid of
        (Panic, w1) \<Rightarrow> (Panic, w1)
      | (Err err, w1) \<Rightarrow> (Ok False, w1)
      | (Ok chids, w1) \<Rightarrow> (Ok True, w1))"

text \<open>
  \<^verbatim>\<open>Register(uaid, chid, version)\<close>. The version arrives as an \<^verbatim>\<open>int64\<close>;
  \<^verbatim>\<open>uint64(version)\<close> keeps its 64 bits.
\<close>

definition Register :: "world \<Rightarrow> bytes \<Rightarrow> bytes \<Rightarrow> 64 word \<Rightarrow> unit result \<times> world" where
  "Register w uaid chid version =
     (if length uaid = 0 then (Err (Sp NoChannelError), w)
      else (case fetchAppIDArray w uaid of
              (Panic, w1) \<Rightarrow> (Panic, w1)
            | (Err err, w1) \<Rightarrow> (Err err, w1)
            | (Ok chids, w1) \<Rightarrow>
                (case (if IndexOf chids chid < 0
                       then storeAppIDArray w1 uaid (chids @ [chid])
                       else (None, w1)) of
                   (Some err, w2) \<Rightarrow> (Err err, w2)
                 | (None, w2) \<Rightarrow>
                     (let (now, w3) = time_Now_Unix w2;
                          rec = \<lparr>S = REGISTERED, V = 0, L = now\<rparr>;
                          rec = (if version \<noteq> 0 then rec\<lparr>V := version, S := LIVE\<rparr> else rec);
                          key = toBinaryKey uaid chid
                      in (case storeRec w3 key (Some rec) of
                            (Some err, w4) \<Rightarrow> (Err err, w4)
                          | (None, w4) \<Rightarrow> (Ok (), w4))))))"

text \<open>
  \<^verbatim>\<open>Update(uaid, chid, version)\<close>. \<^verbatim>\<open>fetchRec\<close> gives either an error and no record
  or a record and no error.
\<close>

definition Update :: "world \<Rightarrow> bytes \<Rightarrow> bytes \<Rightarrow> 64 word \<Rightarrow> unit result \<times> world" where
  "Update w uaid chid version =
     (if length uaid = 0 \<or> length chid = 0 then (Err (Sp InvalidPrimaryKeyError), w)
      else (let key = toBinaryKey uaid chid
            in (case fetchRec w key of
                  (Inl err, w1) \<Rightarrow>
                    (if \<not> isMissing (sptext w1) err then (Err err, w1)
                     else Register w1 uaid chid version)
                | (Inr cRec, w1) \<Rightarrow>
                    (if S cRec \<noteq> DELETED
                     then (let (now, w2) = time_Now_Unix w1;
                               newRecord = \<lparr>S = LIVE, V = version, L = now\<rparr>
                           in (case storeRec w2 key (Some newRecord) of
                                 (Some err, w3) \<Rightarrow> (Err err, w3)
                               | (None, w3) \<Rightarrow> (Ok (), w3)))
                     else Register w1 uaid chid version))))"

text \<open>
  The retry loop of \<^verbatim>\<open>Unregister\<close>, \<^verbatim>\<open>for x := 0; x < 3; x++\<close>: a failed
  \<^verbatim>\<open>fetchRec\<close> goes to the next round, a successful one is followed by one
  \<^verbatim>\<open>storeRec\<close>, whose error is dropped, and the \<^verbatim>\<open>break\<close>. Next to the world the
  model returns the number of rounds that were started.
\<close>

function Unregister_retry :: "world \<Rightarrow> bytes \<Rightarrow> nat \<Rightarrow> nat \<times> world" where
  "Unregister_retry w key x =
     (if x < 3 then
        (case fetchRec w key of
           (Inl err, w1) \<Rightarrow> Unregister_retry w1 key (x + 1)
         | (Inr channel, w1) \<Rightarrow>
             (x + 1, snd (storeRec w1 key (Some (channel\<lparr>S := DELETED\<rparr>)))))
      else (x, w))"
  by pat_completeness auto
termination
  by (relation "measure (\<lambda>(w, key, x). 3 - x)") auto

declare Unregister_retry.simps [simp del]

text \<open>\<^verbatim>\<open>Unregister(uaid, chid)\<close>.\<close>

definition Unregister :: "world \<Rightarrow> bytes \<Rightarrow> bytes \<Rightarrow> unit result \<times> world" where
  "Unregister w uaid chid =
     (case fetchAppIDArray w uaid of
        (Panic, w1) \<Rightarrow> (Panic, w1)
      | (Err err, w1) \<Rightarrow> (Err err, w1)
      | (Ok chids, w1) \<Rightarrow>
          (let pos = IndexOf chids chid
           in if pos < 0 then (Err (Sp InvalidChannelError), w1)
              else (let key = toBinaryKey uaid chid
                    in (case remove (slice_of chids) pos of
                          None \<Rightarrow> (Panic, w1)
                        | Some rest \<Rightarrow>
                            (case storeAppIDArray w1 uaid (elems rest) of
                               (Some err, w2) \<Rightarrow> (Err err, w2)
                             | (None, w2) \<Rightarrow> (Ok (), snd (Unregister_retry w2 key 0)))))))"

text \<open>
  The second loop of \<^verbatim>\<open>FetchAll\<close>, over the keys and their channel IDs, with the
  lists \<open>updates\<close> and \<open>expired\<close> it appends to. \<open>sinceUnix\<close> is \<^verbatim>\<open>since.Unix()\<close>,
  and \<^verbatim>\<open>channel.L < sinceUnix\<close> compares two \<^verbatim>\<open>int64\<close>.
\<close>

fun FetchAll_loop ::
  "world \<Rightarrow> (bytes \<times> bytes) list \<Rightarrow> 64 word \<Rightarrow> Update list \<Rightarrow> ia
     \<Rightarrow> (Update list \<times> ia) \<times> world" where
  "FetchAll_loop w [] sinceUnix updates expired = ((updates, expired), w)"
| "FetchAll_loop w ((key, chid) # rest) sinceUnix updates expired =
     (case Get_cr w key of
        (Inl err, w1) \<Rightarrow> FetchAll_loop w1 rest sinceUnix updates expired
      | (Inr channel, w1) \<Rightarrow>
          (if word_sless (L channel) sinceUnix
           then FetchAll_loop w1 rest sinceUnix updates expired
           else if S channel = LIVE
           then (let (version, w2) =
                       (if V channel = 0 then time_Now_Unix w1 else (V channel, w1));
                     update = \<lparr>ChannelID = hex_EncodeToString chid, Version = version\<rparr>
                 in FetchAll_loop w2 rest sinceUnix (updates @ [update]) expired)
           else if S channel = DELETED
           then FetchAll_loop w1 rest sinceUnix updates (expired @ [chid])
           else FetchAll_loop w1 rest sinceUnix updates expired))"

text \<open>
  \<^verbatim>\<open>FetchAll(uaid, since)\<close>; the model takes \<^verbatim>\<open>since.Unix()\<close> as its argument. The
  first loop makes the key of every channel ID.
\<close>

definition FetchAll :: "world \<Rightarrow> bytes \<Rightarrow> 64 word \<Rightarrow> (Update list \<times> ia) result \<times> world" where
  "FetchAll w uaid sinceUnix =
     (case fetchAppIDArray w uaid of
        (Panic, w1) \<Rightarrow> (Panic, w1)
      | (Err err, w1) \<Rightarrow> (Err err, w1)
      | (Ok chids, w1) \<Rightarrow>
          (let keys = map (\<lambda>chid. toBinaryKey uaid chid) chids
           in (case getClient w1 of
                 (Some err, w2) \<Rightarrow> (Err err, w2)
               | (None, w2) \<Rightarrow>
                   (case FetchAll_loop w2 (zip keys chids) sinceUnix [] [] of
                      (r, w3) \<Rightarrow> (Ok r, w3)))))"

section \<open>The connection pool\<close>

text \<open>
  The run loop owns the list of idle connections and the counter \<open>capacity\<close>. A
  connection is a number. The effects of the loop on the outside are recorded in the
  state: the connections it closed, in order, and what it answered to each
  acquisition. \<^verbatim>\<open>fatal(err)\<close> marks the store as closing and keeps the first error.
\<close>

type_synonym conn = nat

datatype answer = Sent conn | Nothing

record pool_state =
  clients :: "conn list"
  capacity :: int
  isClosing :: bool
  lastErr :: "error option"
  closed :: "conn list"
  answers :: "answer list"

text \<open>
  What the \<^verbatim>\<open>select\<close> of one round receives: the close signal, a new connection on
  \<^verbatim>\<open>s.clients\<close>, a released connection on \<^verbatim>\<open>s.releases\<close>, or an acquisition. An
  acquisition carries what \<^verbatim>\<open>s.newClient()\<close> gives if the round calls it.
\<close>

datatype pool_event =
    CloseSignal
  | NewClient conn
  | Release conn
  | Acquisition "error + conn"

definition fatal :: "pool_state \<Rightarrow> error \<Rightarrow> pool_state" where
  "fatal st err =
     (let st = st\<lparr>isClosing := True\<rparr>
      in if lastErr st = None then st\<lparr>lastErr := Some err\<rparr> else st)"

text \<open>One round of the loop of \<^verbatim>\<open>run()\<close> for an event other than the close signal.\<close>

fun run_round :: "EmceeConfig \<Rightarrow> pool_state \<Rightarrow> pool_event \<Rightarrow> pool_state" where
  "run_round cfg st CloseSignal = st"
| "run_round cfg st (NewClient client) =
     (if capacity st \<ge> MaxConns cfg then st\<lparr>closed := closed st @ [client]\<rparr>
      else st\<lparr>clients := clients st @ [client], capacity := capacity st + 1\<rparr>)"
| "run_round cfg st (Release freeClient) =
     (if capacity st \<ge> MaxConns cfg then st\<lparr>closed := closed st @ [freeClient]\<rparr>
      else st\<lparr>clients := clients st @ [freeClient]\<rparr>)"
| "run_round cfg st (Acquisition fresh) =
     (case clients st of
        client # idle \<Rightarrow> st\<lparr>clients := idle, answers := answers st @ [Sent client]\<rparr>
      | [] \<Rightarrow>
          (if capacity st < MaxConns cfg
           then (case fresh of
                   Inl err \<Rightarrow> (fatal st err)\<lparr>answers := answers st @ [Nothing]\<rparr>
                 | Inr client \<Rightarrow>
                     st\<lparr>answers := answers st @ [Sent client], capacity := capacity st + 1\<rparr>)
           else st\<lparr>answers := answers st @ [Nothing]\<rparr>))"

text \<open>
  \<^verbatim>\<open>run()\<close> on a schedule of events: the loop ends at the close signal, and then
  every idle connection is closed. When the schedule is used up first, the loop is
  still waiting in its \<^verbatim>\<open>select\<close>.
\<close>

fun run :: "EmceeConfig \<Rightarrow> pool_state \<Rightarrow> pool_event list \<Rightarrow> pool_state" where
  "run cfg st [] = st"
| "run cfg st (CloseSignal # evs) = st\<lparr>closed := closed st @ clients st\<rparr>"
| "run cfg st (ev # evs) = run cfg (run_round cfg st ev) evs"

text \<open>The state in which \<^verbatim>\<open>run()\<close> starts: an empty list and capacity 0.\<close>

definition pool_start :: pool_state where
  "pool_start =
     \<lparr>clients = [], capacity = 0, isClosing = False, lastErr = None,
      closed = [], answers = []\<rparr>"

section \<open>Vocabulary of the statements\<close>

text \<open>
  The list of channel IDs that memcached holds for a device: the empty list for the
  empty device ID, which is never looked up, and for a device without a stored list.
\<close>

definition device_set :: "world \<Rightarrow> bytes \<Rightarrow> ia" where
  "device_set w uaid =
     (if uaid = [] then [] else (case sets w uaid of None \<Rightarrow> [] | Some arr \<Rightarrow> arr))"

text \<open>The channel record that memcached holds for a channel of a device, if any.\<close>

definition stored_rec :: "world \<Rightarrow> bytes \<Rightarrow> bytes \<Rightarrow> cr option" where
  "stored_rec w uaid chid = map_option fst (recs w (toBinaryKey uaid chid))"

text \<open>The record was last touched at or after the cutoff (both are \<^verbatim>\<open>int64\<close>).\<close>

definition touched_since :: "cr \<Rightarrow> 64 word \<Rightarrow> bool" where
  "touched_since rec sinceUnix = (sint sinceUnix \<le> sint (L rec))"

definition live_since :: "world \<Rightarrow> bytes \<Rightarrow> 64 word \<Rightarrow> bytes \<Rightarrow> bool" where
  "live_since w uaid sinceUnix chid =
     (case stored_rec w uaid chid of
        None \<Rightarrow> False
      | Some rec \<Rightarrow> S rec = LIVE \<and> touched_since rec sinceUnix)"

definition deleted_since :: "world \<Rightarrow> bytes \<Rightarrow> 64 word \<Rightarrow> bytes \<Rightarrow> bool" where
  "deleted_since w uaid sinceUnix chid =
     (case stored_rec w uaid chid of
        None \<Rightarrow> False
      | Some rec \<Rightarrow> S rec = DELETED \<and> touched_since rec sinceUnix)"

text \<open>
  The update \<open>u\<close> reports the channel \<open>chid\<close> as a call that leads from world \<open>w\<close> to
  world \<open>w'\<close> has to: under the hex-encoded channel ID, with the stored version, or,
  when the stored version is 0, with a reading of the clock made during the call.
\<close>

definition update_of :: "world \<Rightarrow> world \<Rightarrow> bytes \<Rightarrow> bytes \<Rightarrow> Update \<Rightarrow> bool" where
  "update_of w w' uaid chid u =
     (ChannelID u = hex_EncodeToString chid
      \<and> (case stored_rec w uaid chid of
            None \<Rightarrow> False
          | Some rec \<Rightarrow>
              if V rec = 0 then Version u \<in> clock w ` {reads w ..< reads w'}
              else Version u = V rec))"

text \<open>
  A world for the examples: the default configuration, given stored values and scripts,
  and a clock that starts at 1400000000 and advances by one second with each reading.
\<close>

definition world_of ::
  "(bytes \<rightharpoonup> ia) \<Rightarrow> (bytes \<rightharpoonup> cr \<times> int) \<Rightarrow> pool_reply list \<Rightarrow> string option list \<Rightarrow> world" where
  "world_of stored_sets stored_recs pool_script net_script =
     \<lparr>config = ConfigStruct, sptext = (\<lambda>e. ''sperror''),
      sets = stored_sets, recs = stored_recs,
      pool = pool_script, net = net_script,
      clock = (\<lambda>n. 1400000000 + of_nat n), reads = 0\<rparr>"

text \<open>Nothing stored.\<close>

definition w_empty :: world where
  "w_empty = world_of Map.empty Map.empty [] []"

text \<open>Device \<open>[1]\<close> with one channel \<open>[2]\<close> that is registered and has no version yet.\<close>

definition w_registered :: world where
  "w_registered =
     world_of [[1] \<mapsto> [[2]]]
       [toBinaryKey [1] [2] \<mapsto>
          (\<lparr>S = REGISTERED, V = 0, L = 1399999000\<rparr>, RegisterTimeout ConfigStruct)]
       [] []"

text \<open>The same device with a record of channel \<open>[2]\<close> that is marked as deleted.\<close>

definition w_deleted :: world where
  "w_deleted =
     world_of [[1] \<mapsto> [[2]]]
       [toBinaryKey [1] [2] \<mapsto>
          (\<lparr>S = DELETED, V = 7, L = 1399999000\<rparr>, UnregisterTimeout ConfigStruct)]
       [] []"

text \<open>A stored list of channel IDs that names channel \<open>[2]\<close> twice.\<close>

definition w_duplicate :: world where
  "w_duplicate = world_of [[1] \<mapsto> [[2], [2]]] Map.empty [] []"

text \<open>Device \<open>[1]\<close> with the channels \<open>[2]\<close> and \<open>[3]\<close>, the first one live.\<close>

definition w_live :: world where
  "w_live =
     world_of [[1] \<mapsto> [[2], [3]]]
       [toBinaryKey [1] [2] \<mapsto>
          (\<lparr>S = LIVE, V = 7, L = 1399999000\<rparr>, ChannelTimeout ConfigStruct)]
       [] []"

text \<open>
  The same, where the pool serves two acquisitions and then fails three times: the
  list of channel IDs can be read and written, the record cannot be fetched.
\<close>

definition w_marking_fails :: world where
  "w_marking_fails =
     world_of [[1] \<mapsto> [[2], [3]]]
       [toBinaryKey [1] [2] \<mapsto>
          (\<lparr>S = LIVE, V = 7, L = 1399999000\<rparr>, ChannelTimeout ConfigStruct)]
       [Acquired, Acquired, PoolClosed, PoolSaturated, PoolClosed] []"

text \<open>
  Device \<open>[1]\<close> with five channels: live with version 7, live with version 0,
  deleted, deleted a while ago, and registered.
\<close>

definition w_channels :: world where
  "w_channels =
     world_of [[1] \<mapsto> [[2], [3], [4], [5], [6]]]
       [toBinaryKey [1] [2] \<mapsto> (\<lparr>S = LIVE, V = 7, L = 1400000500\<rparr>, 0),
        toBinaryKey [1] [3] \<mapsto> (\<lparr>S = LIVE, V = 0, L = 1400000500\<rparr>, 0),
        toBinaryKey [1] [4] \<mapsto> (\<lparr>S = DELETED, V = 7, L = 1400000500\<rparr>, 0),
        toBinaryKey [1] [5] \<mapsto> (\<lparr>S = DELETED, V = 7, L = 1399999000\<rparr>, 0),
        toBinaryKey [1] [6] \<mapsto> (\<lparr>S = REGISTERED, V = 0, L = 1400000500\<rparr>, 0)]
       [] []"

section \<open>Properties of the keys\<close>

lemma length_copy_at:
  "off \<le> length dst \<Longrightarrow> length (copy_at dst off src) = length dst"
  by (auto simp: copy_at_def)

lemma copy_at_append:
  "k + length src = length ys \<Longrightarrow>
   copy_at (xs @ ys) (length xs + k) src = xs @ take k ys @ src"
  by (simp add: copy_at_def)

lemma toBinaryKey_short:
  assumes "length uaid \<le> 16" and "length chid \<le> 16"
  shows "toBinaryKey uaid chid =
           replicate (16 - length uaid) 0 @ uaid @ replicate (16 - length chid) 0 @ chid"
proof -
  let ?a = "16 - length uaid" and ?b = "16 - length chid"
  have k1: "copy_at (replicate 32 (0::byte)) ?a uaid = replicate ?a 0 @ uaid @ replicate 16 0"
    using assms(1) by (simp add: copy_at_def min_def)
  have "copy_at ((replicate ?a (0::byte) @ uaid) @ replicate 16 0)
           (length (replicate ?a (0::byte) @ uaid) + ?b) chid
          = (replicate ?a 0 @ uaid) @ take ?b (replicate 16 0) @ chid"
    by (rule copy_at_append) (use assms in simp)
  moreover have "length (replicate ?a (0::byte) @ uaid) + ?b = 32 - length chid"
    using assms by simp
  ultimately have k2:
    "copy_at (replicate ?a (0::byte) @ uaid @ replicate 16 0) (32 - length chid) chid
          = replicate ?a 0 @ uaid @ replicate ?b 0 @ chid"
    by (simp add: min_def)
  have a: "nat (if 16 - int (length uaid) < 0 then 0 else 16 - int (length uaid)) = ?a"
    using assms(1) by simp
  have b: "nat (if 32 - int (length chid) < 16 then 16 else 32 - int (length chid))
          = 32 - length chid"
    using assms(2) by simp
  have "toBinaryKey uaid chid
          = copy_at (copy_at (replicate 32 0) ?a uaid) (32 - length chid) chid"
    unfolding toBinaryKey_def Let_def a b ..
  then show ?thesis
    by (simp only: k1 k2)
qed

text \<open>
  Claim C7, as stated: \<^verbatim>\<open>toBinaryKey\<close> is injective on pairs of byte strings of at most
  16 bytes each. It is not: a half that is shorter than 16 bytes is padded on the left
  with zero bytes, so \<open>[0]\<close> and \<open>[0, 0]\<close> fill their half alike. The two pairs below
  differ, are within the length bound, and get one key.
\<close>

theorem toBinaryKey_collision:
  "length [0 :: byte] \<le> 16 \<and> length [1 :: byte] \<le> 16 \<and> length [0, 0 :: byte] \<le> 16
   \<and> ([0 :: byte], [1 :: byte]) \<noteq> ([0, 0], [1])
   \<and> toBinaryKey [0] [1] = toBinaryKey [0, 0] [1]"
proof -
  have "toBinaryKey [0] [1] = toBinaryKey [0, 0] [1]"
    by code_simp
  then show ?thesis
    by simp
qed

text \<open>
  Claim C7, amended: on pairs whose components are at most 16 bytes long and where the
  two device IDs have the same length and the two channel IDs have the same length,
  different pairs get different keys.
\<close>

theorem toBinaryKey_injective_same_length:
  assumes "length u1 \<le> 16" "length c1 \<le> 16" "length u2 \<le> 16" "length c2 \<le> 16"
    and "length u1 = length u2" "length c1 = length c2"
    and "(u1, c1) \<noteq> (u2, c2)"
  shows "toBinaryKey u1 c1 \<noteq> toBinaryKey u2 c2"
  using assms by (auto simp: toBinaryKey_short)

theorem toBinaryKey_injective_same_length_witness:
  "toBinaryKey [1, 2] [7] \<noteq> toBinaryKey [1, 3] [7]"
  using toBinaryKey_injective_same_length [of "[1, 2]" "[7]" "[1, 3]" "[7]"]
  by simp

section \<open>Properties of the user-readable keys\<close>

lemma cut_dot_first:
  "CHR ''.'' \<notin> set u \<Longrightarrow> cut_dot (u @ CHR ''.'' # c) = Some (u, c)"
  by (induction u) auto

text \<open>
  Claim C8, as stated: for all non-empty strings \<open>u\<close> and \<open>c\<close>, decoding the key made
  from \<open>(u, c)\<close> gives \<open>(u, c)\<close> back. It does not when \<open>u\<close> holds a dot: the decoder
  splits at the first dot of the key, which then lies inside \<open>u\<close>.
\<close>

theorem IDsToKey_KeyToIDs_dot:
  "''a.b'' \<noteq> [] \<and> ''c'' \<noteq> []
   \<and> IDsToKey ''a.b'' ''c'' = (''a.b.c'', True)
   \<and> KeyToIDs ''a.b.c'' = (''a'', ''b.c'', True)
   \<and> (''a'', ''b.c'') \<noteq> (''a.b'', ''c'')"
  by (simp add: IDsToKey_def KeyToIDs_def SplitN_dot_2_def)

text \<open>
  Claim C8, amended: for all non-empty strings \<open>u\<close> and \<open>c\<close> where \<open>u\<close> holds no dot
  (a hex-encoded device ID never does), \<^verbatim>\<open>IDsToKey\<close> succeeds, and \<^verbatim>\<open>KeyToIDs\<close>
  on its key succeeds and returns \<open>(u, c)\<close>.
\<close>

theorem IDsToKey_KeyToIDs_roundtrip:
  assumes "u \<noteq> []" and "c \<noteq> []" and "CHR ''.'' \<notin> set u"
  shows "snd (IDsToKey u c) \<and> KeyToIDs (fst (IDsToKey u c)) = (u, c, True)"
  using assms by (simp add: IDsToKey_def KeyToIDs_def SplitN_dot_2_def cut_dot_first)

theorem IDsToKey_KeyToIDs_roundtrip_witness:
  "snd (IDsToKey ''0a1b'' ''c.d'') \<and> KeyToIDs (fst (IDsToKey ''0a1b'' ''c.d'')) = (''0a1b'', ''c.d'', True)"
  using IDsToKey_KeyToIDs_roundtrip [of "''0a1b''" "''c.d''"]
  by simp

section \<open>Properties of the absence test\<close>

lemma HasPrefix_iff: "HasPrefix s p \<longleftrightarrow> (\<exists>q. s = p @ q)"
  by (induction s p rule: HasPrefix.induct) auto

lemma Contains_iff: "Contains s sub \<longleftrightarrow> (\<exists>p q. s = p @ sub @ q)"
proof (induction s)
  case Nil
  then show ?case by (simp add: HasPrefix_iff)
next
  case (Cons c cs)
  show ?case
  proof
    assume "Contains (c # cs) sub"
    then consider "HasPrefix (c # cs) sub" | "Contains cs sub" by auto
    then show "\<exists>p q. c # cs = p @ sub @ q"
    proof cases
      case 1
      then obtain q where "c # cs = [] @ sub @ q" by (auto simp: HasPrefix_iff)
      then show ?thesis by blast
    next
      case 2
      then obtain p q where "cs = p @ sub @ q" using Cons.IH by blast
      then have "c # cs = (c # p) @ sub @ q" by simp
      then show ?thesis by blast
    qed
  next
    assume "\<exists>p q. c # cs = p @ sub @ q"
    then obtain p q where pq: "c # cs = p @ sub @ q" by blast
    show "Contains (c # cs) sub"
    proof (cases p)
      case Nil
      then have "HasPrefix (c # cs) sub" using pq by (auto simp: HasPrefix_iff)
      then show ?thesis by simp
    next
      case (Cons a p')
      then have "cs = p' @ sub @ q" using pq by simp
      then have "Contains cs sub" using Cons.IH by blast
      then show ?thesis by simp
    qed
  qed
qed

lemma Contains_length: "Contains s sub \<Longrightarrow> length sub \<le> length s"
  by (auto simp: Contains_iff)

text \<open>
  Claim C10: \<^verbatim>\<open>isMissing(err)\<close> is true exactly when the text of the error occurs
  inside the literal \<^verbatim>\<open>NOT FOUND\<close>. So it is true for every error whose text is empty,
  and false for every error whose text is longer than the literal, also when that text
  holds \<^verbatim>\<open>NOT FOUND\<close> next to other characters.
\<close>

theorem isMissing_substring_of_literal:
  "(isMissing txt err \<longleftrightarrow> (\<exists>p q. ''NOT FOUND'' = p @ Error txt err @ q))
   \<and> (Error txt e0 = [] \<longrightarrow> isMissing txt e0)
   \<and> (length (Error txt e1) > length ''NOT FOUND'' \<longrightarrow> \<not> isMissing txt e1)
   \<and> (a @ b \<noteq> [] \<longrightarrow> \<not> isMissing txt (ClientError (a @ ''NOT FOUND'' @ b)))"
proof (intro conjI impI)
  show "isMissing txt err \<longleftrightarrow> (\<exists>p q. ''NOT FOUND'' = p @ Error txt err @ q)"
    by (simp only: isMissing_def Contains_iff)
next
  assume "Error txt e0 = []"
  then show "isMissing txt e0"
    by (simp add: isMissing_def)
next
  assume "length (Error txt e1) > length ''NOT FOUND''"
  then show "\<not> isMissing txt e1"
    unfolding isMissing_def using Contains_length by fastforce
next
  assume "a @ b \<noteq> []"
  then have "length (a @ ''NOT FOUND'' @ b) > length ''NOT FOUND''"
    by (cases a; cases b) auto
  then show "\<not> isMissing txt (ClientError (a @ ''NOT FOUND'' @ b))"
    unfolding isMissing_def using Contains_length by fastforce
qed

theorem isMissing_substring_of_literal_witness:
  "isMissing (\<lambda>_. ''error'') (ClientError ''FOUND'')
   \<and> isMissing (\<lambda>_. ''error'') (ClientError [])
   \<and> \<not> isMissing (\<lambda>_. ''error'') (ClientError ''KEY NOT FOUND'')
   \<and> \<not> isMissing (\<lambda>_. ''error'') (ClientError ''NOT FOUND\<newline>'')"
proof -
  let ?t = "\<lambda>_ :: sperror. ''error''"
  note T = isMissing_substring_of_literal
      [of ?t "ClientError ''FOUND''" "ClientError []"
          "ClientError ''KEY NOT FOUND''" "[]" "''\<newline>''"]
  have "''NOT FOUND'' = ''NOT '' @ Error ?t (ClientError ''FOUND'') @ []"
    by simp
  then have "\<exists>p q. ''NOT FOUND'' = p @ Error ?t (ClientError ''FOUND'') @ q"
    by blast
  with T [THEN conjunct1] have 1: "isMissing ?t (ClientError ''FOUND'')"
    by (rule iffD2)
  from T [THEN conjunct2, THEN conjunct1] have 2: "isMissing ?t (ClientError [])"
    by simp
  from T [THEN conjunct2, THEN conjunct2, THEN conjunct1]
  have 3: "\<not> isMissing ?t (ClientError ''KEY NOT FOUND'')"
    by simp
  from T [THEN conjunct2, THEN conjunct2, THEN conjunct2]
  have 4: "\<not> isMissing ?t (ClientError ''NOT FOUND\<newline>'')"
    by simp
  show ?thesis
    using 1 2 3 4 by blast
qed

section \<open>The duplicate-paring loop\<close>

lemma IndexOf_from_notin:
  "0 \<le> k \<Longrightarrow> (IndexOf_from k xs v = - 1) = (v \<notin> set xs)"
proof (induction xs arbitrary: k)
  case Nil
  then show ?case by simp
next
  case (Cons x xs)
  have "0 \<le> k + 1" using Cons.prems by simp
  from Cons.IH [OF this] show ?case using Cons.prems by auto
qed

lemma IndexOf_from_range:
  "0 \<le> k \<Longrightarrow> v \<in> set xs \<Longrightarrow>
   k \<le> IndexOf_from k xs v \<and> IndexOf_from k xs v < k + int (length xs)"
proof (induction xs arbitrary: k)
  case Nil
  then show ?case by simp
next
  case (Cons x xs)
  show ?case
  proof (cases "x = v")
    case True
    then show ?thesis by simp
  next
    case False
    then have "v \<in> set xs" using Cons.prems by simp
    moreover have "0 \<le> k + 1" using Cons.prems by simp
    ultimately have "k + 1 \<le> IndexOf_from (k + 1) xs v \<and>
        IndexOf_from (k + 1) xs v < k + 1 + int (length xs)"
      using Cons.IH by blast
    then show ?thesis using False by simp
  qed
qed

lemma IndexOf_notin: "(IndexOf xs v < 0) = (v \<notin> set xs)"
proof (cases "v \<in> set xs")
  case True
  then show ?thesis
    using IndexOf_from_range [of 0 v xs] by (simp add: IndexOf_def)
next
  case False
  then show ?thesis
    using IndexOf_from_notin [of 0 xs v] by (simp add: IndexOf_def)
qed

lemma IndexOf_notin': "v \<notin> set xs \<Longrightarrow> IndexOf xs v = - 1"
  using IndexOf_from_notin [of 0 xs v] by (simp add: IndexOf_def)

lemma IndexOf_range:
  "v \<in> set xs \<Longrightarrow> 0 \<le> IndexOf xs v \<and> IndexOf xs v < int (length xs)"
  using IndexOf_from_range [of 0 v xs] by (simp add: IndexOf_def)

text \<open>Once the slice is shorter than the number of rounds, the loop ends in a panic.\<close>

lemma pare_short_panics:
  "len < n \<Longrightarrow> i \<le> len \<Longrightarrow> pare (a, len) n i = None"
proof (induction "n - i" arbitrary: i a len)
  case 0
  then show ?case by simp
next
  case (Suc k)
  have in_loop: "i < n" using Suc.prems by simp
  show ?case
  proof (cases "len < i + 1")
    case True
    then show ?thesis using in_loop by (simp add: pare.simps [of "(a, len)"])
  next
    case False
    let ?tail = "drop (i + 1) (elems (a, len))"
    let ?dup = "IndexOf ?tail (a ! i)"
    have k: "k = n - (i + 1)" using Suc.hyps(2) by simp
    show ?thesis
    proof (cases "?dup > - 1")
      case True
      then have "a ! i \<in> set ?tail"
        using IndexOf_notin' [of "a ! i" ?tail] by auto
      then have "0 \<le> ?dup \<and> ?dup < int (length ?tail)"
        by (rule IndexOf_range)
      moreover have "length ?tail \<le> len - (i + 1)"
        by (simp add: elems_def)
      ultimately have d: "0 \<le> ?dup" "?dup < int len - int i - 1"
        by auto
      then obtain r where r: "remove (a, len) (int i + ?dup) = Some (r, len - 1)"
        by (auto simp: remove_def Let_def)
      have "pare (r, len - 1) n (i + 1) = None"
        using d Suc.prems by (intro Suc.hyps(1) [OF k]) auto
      then show ?thesis
        using in_loop False True r by (simp add: pare.simps [of "(a, len)"] Let_def)
    next
      case no_dup: False
      have "pare (a, len) n (i + 1) = None"
        using False Suc.prems by (intro Suc.hyps(1) [OF k]) auto
      then show ?thesis
        using in_loop False no_dup by (simp add: pare.simps [of "(a, len)"] Let_def)
    qed
  qed
qed

lemma pare_distinct:
  "distinct (drop i xs) \<Longrightarrow> pare (xs, length xs) (length xs) i = Some (xs, length xs)"
proof (induction "length xs - i" arbitrary: i)
  case 0
  then show ?case by (simp add: pare.simps [of "(xs, length xs)"])
next
  case (Suc k)
  have in_loop: "i < length xs" using Suc.hyps(2) by simp
  have k: "k = length xs - (i + 1)" using Suc.hyps(2) by simp
  have split: "drop i xs = xs ! i # drop (i + 1) xs"
    using in_loop by (simp add: Cons_nth_drop_Suc)
  then have "xs ! i \<notin> set (drop (i + 1) xs)" and rest: "distinct (drop (i + 1) xs)"
    using Suc.prems by simp_all
  then have "IndexOf (drop (i + 1) (elems (xs, length xs))) (xs ! i) = - 1"
    by (simp add: elems_def IndexOf_notin')
  moreover have "pare (xs, length xs) (length xs) (i + 1) = Some (xs, length xs)"
    using Suc.hyps(1) [OF k rest] .
  ultimately show ?case
    using in_loop by (simp add: pare.simps [of "(xs, length xs)" _ i] Let_def)
qed

lemma pare_duplicate:
  "\<not> distinct (drop i xs) \<Longrightarrow> pare (xs, length xs) (length xs) i = None"
proof (induction "length xs - i" arbitrary: i)
  case 0
  then show ?case by simp
next
  case (Suc k)
  have in_loop: "i < length xs" using Suc.hyps(2) by simp
  have k: "k = length xs - (i + 1)" using Suc.hyps(2) by simp
  have split: "drop i xs = xs ! i # drop (i + 1) xs"
    using in_loop by (simp add: Cons_nth_drop_Suc)
  let ?tail = "drop (i + 1) (elems (xs, length xs))"
  let ?dup = "IndexOf ?tail (xs ! i)"
  have tail: "?tail = drop (i + 1) xs" by (simp add: elems_def)
  show ?case
  proof (cases "xs ! i \<in> set (drop (i + 1) xs)")
    case True
    then have "0 \<le> ?dup \<and> ?dup < int (length ?tail)"
      unfolding tail by (rule IndexOf_range)
    then have d: "0 \<le> ?dup" "?dup < int (length xs) - int i - 1"
      by (auto simp: elems_def)
    then obtain r where r: "remove (xs, length xs) (int i + ?dup) = Some (r, length xs - 1)"
      by (auto simp: remove_def Let_def)
    have "pare (r, length xs - 1) (length xs) (i + 1) = None"
      using d in_loop by (intro pare_short_panics) auto
    then show ?thesis
      using in_loop d r by (simp add: pare.simps [of "(xs, length xs)" _ i] Let_def)
  next
    case False
    then have "\<not> distinct (drop (i + 1) xs)"
      using Suc.prems split by simp
    then have "pare (xs, length xs) (length xs) (i + 1) = None"
      using Suc.hyps(1) [OF k] by blast
    moreover have "?dup = - 1"
      unfolding tail using False by (rule IndexOf_notin')
    ultimately show ?thesis
      using in_loop by (simp add: pare.simps [of "(xs, length xs)" _ i] Let_def)
  qed
qed

lemma pare_all:
  "pare (slice_of xs) (length xs) 0 = (if distinct xs then Some (slice_of xs) else None)"
  using pare_distinct [of 0 xs] pare_duplicate [of 0 xs] by (simp add: slice_of_def)

section \<open>The adapter in undisturbed surroundings\<close>

text \<open>
  When both scripts are empty, every pool acquisition and every driver call goes
  through, and the operations depend on the stored values alone.
\<close>

lemma length_toBinaryKey: "length (toBinaryKey uaid chid) = 32"
proof -
  let ?a = "nat (if 16 - int (length uaid) < 0 then 0 else 16 - int (length uaid))"
  let ?b = "nat (if 32 - int (length chid) < 16 then 16 else 32 - int (length chid))"
  have "?a \<le> 32" by (simp split: if_splits) linarith
  then have "?a \<le> length (replicate 32 (0::byte))" by simp
  then have 1: "length (copy_at (replicate 32 (0::byte)) ?a uaid) = 32"
    by (simp only: length_copy_at length_replicate)
  have "?b \<le> 32" by (simp split: if_splits) linarith
  then have "length (copy_at (copy_at (replicate 32 (0::byte)) ?a uaid) ?b chid) = 32"
    using 1 by (simp only: length_copy_at)
  then show ?thesis
    unfolding toBinaryKey_def Let_def .
qed

lemma isMissing_NOT_FOUND: "isMissing txt (ClientError ''NOT FOUND'')"
  by (simp add: isMissing_def)

lemma isMissing_pool_errors: "\<not> isMissing txt EOF" "\<not> isMissing txt ErrPoolSaturated"
  by (simp_all add: isMissing_def)

lemma states_distinct:
  "LIVE \<noteq> DELETED" "LIVE \<noteq> REGISTERED" "REGISTERED \<noteq> DELETED"
  "DELETED \<noteq> LIVE" "REGISTERED \<noteq> LIVE" "DELETED \<noteq> REGISTERED"
  by (simp_all add: LIVE_def DELETED_def REGISTERED_def)

lemma getClient_quiet: "pool w = [] \<Longrightarrow> getClient w = (None, w)"
  by (simp add: getClient_def)

lemma net_next_quiet: "net w = [] \<Longrightarrow> net_next w = (None, w)"
  by (simp add: net_next_def)

lemma Get_ia_quiet:
  "net w = [] \<Longrightarrow>
   Get_ia w key =
     (case sets w key of None \<Rightarrow> Inl (ClientError ''NOT FOUND'') | Some arr \<Rightarrow> Inr arr, w)"
  by (simp add: Get_ia_def net_next_quiet split: option.split)

lemma Set_ia_quiet:
  "net w = [] \<Longrightarrow> Set_ia w key arr = (None, w\<lparr>sets := (sets w)(key \<mapsto> arr)\<rparr>)"
  by (simp add: Set_ia_def net_next_quiet)

lemma Get_cr_quiet:
  "net w = [] \<Longrightarrow>
   Get_cr w key =
     (case recs w key of None \<Rightarrow> Inl (ClientError ''NOT FOUND'') | Some (rec, ttl) \<Rightarrow> Inr rec, w)"
  by (simp add: Get_cr_def net_next_quiet split: option.split)

lemma Set_cr_quiet:
  "net w = [] \<Longrightarrow> Set_cr w key rec ttl = (None, w\<lparr>recs := (recs w)(key \<mapsto> (rec, ttl))\<rparr>)"
  by (simp add: Set_cr_def net_next_quiet)

lemma elems_slice_of: "elems (slice_of xs) = xs"
  by (simp add: elems_def slice_of_def)

lemma fetchAppIDArray_quiet:
  assumes "pool w = []" and "net w = []"
  shows "fetchAppIDArray w uaid =
           (if uaid = [] then Ok []
            else (case sets w uaid of
                    None \<Rightarrow> Ok []
                  | Some arr \<Rightarrow> if distinct arr then Ok arr else Panic), w)"
  using assms
  by (simp add: fetchAppIDArray_def getClient_quiet Get_ia_quiet isMissing_NOT_FOUND
      pare_all elems_slice_of split: option.split)

lemma fetchAppIDArray_distinct:
  assumes "fetchAppIDArray w uaid = (Ok chids, w1)"
  shows "distinct chids"
  using assms
  by (auto simp: fetchAppIDArray_def pare_all elems_slice_of
      split: if_splits prod.splits option.splits sum.splits)

lemma fetchRec_quiet:
  assumes "pool w = []" and "net w = []" and "pk \<noteq> []"
  shows "fetchRec w pk =
           (case recs w pk of
              None \<Rightarrow> Inr \<lparr>S = 0, V = 0, L = 0\<rparr>
            | Some (rec, ttl) \<Rightarrow> Inr rec, w)"
  using assms
  by (simp add: fetchRec_def getClient_quiet Get_cr_quiet isMissing_NOT_FOUND
      split: option.split)

lemma storeRec_quiet:
  assumes "pool w = []" and "net w = []" and "pk \<noteq> []"
  shows "storeRec w pk (Some r) =
           (None, w\<lparr>reads := Suc (reads w),
                    recs := (recs w)(pk \<mapsto> (r\<lparr>L := clock w (reads w)\<rparr>,
                       if S r = DELETED then UnregisterTimeout (config w)
                       else if S r = REGISTERED then RegisterTimeout (config w)
                       else ChannelTimeout (config w)))\<rparr>)"
  using assms
  by (simp add: storeRec_def time_Now_Unix_def getClient_quiet Set_cr_quiet Let_def)

lemma storeAppIDArray_quiet:
  assumes "pool w = []" and "net w = []" and "uaid \<noteq> []"
  shows "storeAppIDArray w uaid arr = (None, w\<lparr>sets := (sets w)(uaid \<mapsto> Sort arr)\<rparr>)"
  using assms by (simp add: storeAppIDArray_def getClient_quiet Set_ia_quiet)

lemma fetchAppIDArray_device_set:
  assumes "pool w = []" and "net w = []" and "distinct (device_set w uaid)"
  shows "fetchAppIDArray w uaid = (Ok (device_set w uaid), w)"
  using assms
  by (cases "uaid = []"; cases "sets w uaid") (simp_all add: fetchAppIDArray_quiet device_set_def)

text \<open>
  What \<^verbatim>\<open>Register\<close> stores in undisturbed surroundings: a live record exactly for a
  version other than 0, so a live record it stores has a version above 0.
\<close>

lemma Register_stores:
  assumes "uaid \<noteq> []" and "pool w = []" and "net w = []" and "distinct (device_set w uaid)"
  shows "fst (Register w uaid chid version) = Ok ()
     \<and> stored_rec (snd (Register w uaid chid version)) uaid chid
          = Some \<lparr>S = (if version \<noteq> 0 then LIVE else REGISTERED), V = version,
                  L = clock w (reads w + 1)\<rparr>"
proof -
  let ?key = "toBinaryKey uaid chid"
  have key: "?key \<noteq> []"
    using length_toBinaryKey [of uaid chid] by auto
  have fetch: "fetchAppIDArray w uaid = (Ok (device_set w uaid), w)"
    using assms(2-4) by (rule fetchAppIDArray_device_set)
  obtain w2 where w2: "(if IndexOf (device_set w uaid) chid < 0
       then storeAppIDArray w uaid (device_set w uaid @ [chid]) else (None, w)) = (None, w2)"
      and quiet2: "pool w2 = []" "net w2 = []"
      and same: "recs w2 = recs w" "clock w2 = clock w" "reads w2 = reads w" "config w2 = config w"
    using assms(1-3) by (cases "IndexOf (device_set w uaid) chid < 0")
      (simp_all add: storeAppIDArray_quiet)
  let ?w3 = "w2\<lparr>reads := Suc (reads w2)\<rparr>"
  let ?rec = "\<lparr>S = (if version \<noteq> 0 then LIVE else REGISTERED), V = version, L = clock w (reads w)\<rparr>"
  have store: "storeRec ?w3 ?key (Some ?rec) =
      (None, ?w3\<lparr>reads := Suc (reads ?w3),
                 recs := (recs ?w3)(?key \<mapsto> (?rec\<lparr>L := clock ?w3 (reads ?w3)\<rparr>,
                    if S ?rec = DELETED then UnregisterTimeout (config ?w3)
                    else if S ?rec = REGISTERED then RegisterTimeout (config ?w3)
                    else ChannelTimeout (config ?w3)))\<rparr>)"
    using quiet2 key by (intro storeRec_quiet) simp_all
  have "Register w uaid chid version = storeRec_result"
    if "storeRec_result = (case storeRec ?w3 ?key (Some ?rec) of
          (Some err, w4) \<Rightarrow> (Err err, w4) | (None, w4) \<Rightarrow> (Ok (), w4))"
    for storeRec_result
    using that assms(1) fetch w2 same
    by (cases "version = 0") (simp_all add: Register_def time_Now_Unix_def)
  then show ?thesis
    using store same by (simp add: stored_rec_def)
qed

section \<open>Removing a channel ID and marking its record\<close>

lemma set_insert_sorted: "set (insert_sorted x ys) = insert x (set ys)"
  by (induction ys) auto

lemma set_Sort: "set (Sort xs) = set xs"
  by (induction xs) (auto simp: set_insert_sorted)

lemma IndexOf_from_remove1:
  "0 \<le> k \<Longrightarrow> v \<in> set xs \<Longrightarrow>
   take (nat (IndexOf_from k xs v - k)) xs @ drop (nat (IndexOf_from k xs v - k) + 1) xs
     = remove1 v xs"
proof (induction xs arbitrary: k)
  case Nil
  then show ?case by simp
next
  case (Cons x xs)
  show ?case
  proof (cases "x = v")
    case True
    then show ?thesis by simp
  next
    case False
    then have v: "v \<in> set xs" using Cons.prems by simp
    have k1: "0 \<le> k + 1" using Cons.prems by simp
    let ?r = "IndexOf_from (k + 1) xs v"
    have "k + 1 \<le> ?r" using IndexOf_from_range [OF k1 v] by simp
    then have "nat (?r - k) = Suc (nat (?r - (k + 1)))" by simp
    then show ?thesis
      using False Cons.IH [OF k1 v] by simp
  qed
qed

lemma take_length_append: "length ys = n \<Longrightarrow> take n (ys @ zs) = ys"
  by simp

lemma remove_at_IndexOf:
  assumes "v \<in> set xs"
  shows "\<exists>rest. remove (slice_of xs) (IndexOf xs v) = Some rest \<and> elems rest = remove1 v xs"
proof -
  let ?p = "IndexOf xs v"
  have p: "0 \<le> ?p" "?p < int (length xs)"
    using IndexOf_range [OF assms] by simp_all
  have cut: "take (nat ?p) xs @ drop (nat ?p + 1) xs = remove1 v xs"
    using IndexOf_from_remove1 [of 0 v xs] assms by (simp add: IndexOf_def)
  have "length (take (nat ?p) xs @ drop (nat ?p + 1) xs) = length xs - 1"
    using p by simp
  then have "take (length xs - 1) ((take (nat ?p) xs @ drop (nat ?p + 1) xs) @ drop (length xs - 1) xs)
          = take (nat ?p) xs @ drop (nat ?p + 1) xs"
    by (rule take_length_append)
  then show ?thesis
    using p cut by (simp add: remove_def slice_of_def elems_def Let_def)
qed

lemma storeAppIDArray_error:
  "storeAppIDArray w uaid arr = (Some err, w2) \<Longrightarrow> err \<noteq> Sp InvalidChannelError"
  by (auto simp: storeAppIDArray_def getClient_def Set_ia_def
      split: if_splits prod.splits option.splits list.splits pool_reply.splits)

lemma storeAppIDArray_stored:
  "storeAppIDArray w uaid arr = (None, w2) \<Longrightarrow> sets w2 uaid = Some (Sort arr)"
  by (auto simp: storeAppIDArray_def getClient_def Set_ia_def net_next_def
      split: if_splits prod.splits option.splits list.splits pool_reply.splits)

lemma fetchRec_sets: "sets (snd (fetchRec w pk)) = sets w"
  by (auto simp: fetchRec_def getClient_def Get_cr_def net_next_def Let_def
      split: if_splits prod.splits option.splits list.splits pool_reply.splits sum.splits)

lemma storeRec_sets: "sets (snd (storeRec w pk rec)) = sets w"
  by (auto simp: storeRec_def getClient_def Set_cr_def net_next_def Let_def time_Now_Unix_def
      split: if_splits prod.splits option.splits list.splits pool_reply.splits sum.splits)

lemma Unregister_retry_sets: "sets (snd (Unregister_retry w key x)) = sets w"
proof (induction w key x rule: Unregister_retry.induct)
  case (1 w key x)
  show ?case
  proof (cases "x < 3")
    case False
    then show ?thesis by (simp add: Unregister_retry.simps [of w])
  next
    case True
    obtain res w1 where f: "fetchRec w key = (res, w1)" by (cases "fetchRec w key")
    have w1: "sets w1 = sets w" using fetchRec_sets [of w key] f by simp
    show ?thesis
    proof (cases res)
      case (Inl err)
      then show ?thesis
        using True f w1 "1.IH" [OF True f [symmetric] Inl]
        by (simp add: Unregister_retry.simps [of w])
    next
      case (Inr channel)
      then show ?thesis
        using True f w1 storeRec_sets [of w1 key]
        by (simp add: Unregister_retry.simps [of w])
    qed
  qed
qed

lemma Unregister_retry_rounds: "x \<le> 3 \<Longrightarrow> fst (Unregister_retry w key x) \<le> 3"
proof (induction w key x rule: Unregister_retry.induct)
  case (1 w key x)
  show ?case
  proof (cases "x < 3")
    case False
    then show ?thesis using "1.prems" by (simp add: Unregister_retry.simps [of w])
  next
    case True
    obtain res w1 where f: "fetchRec w key = (res, w1)" by (cases "fetchRec w key")
    show ?thesis
    proof (cases res)
      case (Inl err)
      then show ?thesis
        using True f "1.IH" [OF True f [symmetric] Inl]
        by (simp add: Unregister_retry.simps [of w])
    next
      case (Inr channel)
      then show ?thesis
        using True f by (simp add: Unregister_retry.simps [of w])
    qed
  qed
qed

lemma Unregister_retry_quiet:
  assumes "pool w = []" and "net w = []" and "key \<noteq> []"
  shows "Unregister_retry w key 0 =
           (1, w\<lparr>reads := Suc (reads w),
                  recs := (recs w)(key \<mapsto>
                    ((case recs w key of
                        None \<Rightarrow> \<lparr>S = 0, V = 0, L = 0\<rparr>
                      | Some (rec, ttl) \<Rightarrow> rec)\<lparr>S := DELETED, L := clock w (reads w)\<rparr>,
                     UnregisterTimeout (config w)))\<rparr>)"
  using assms
  by (simp add: Unregister_retry.simps [of w] fetchRec_quiet storeRec_quiet
      split: option.split)

section \<open>The loop of FetchAll\<close>

lemma update_of_earlier:
  assumes "update_of w1 w' uaid chid u"
    and "recs w1 = recs w" and "clock w1 = clock w" and "reads w \<le> reads w1"
  shows "update_of w w' uaid chid u"
proof -
  have "clock w ` {reads w1 ..< reads w'} \<subseteq> clock w ` {reads w ..< reads w'}"
    using assms(4) by (intro image_mono) auto
  then show ?thesis
    using assms(1-3) unfolding update_of_def stored_rec_def
    by (auto split: option.splits if_splits)
qed

lemma FetchAll_loop_quiet:
  assumes "net w = []"
  shows "case FetchAll_loop w (zip (map (toBinaryKey uaid) cs) cs) sinceUnix ups exps of
           ((updates, expired), w') \<Rightarrow>
              expired = exps @ filter (deleted_since w uaid sinceUnix) cs
              \<and> (\<exists>us. updates = ups @ us
                    \<and> list_all2 (update_of w w' uaid) (filter (live_since w uaid sinceUnix) cs) us)
              \<and> recs w' = recs w \<and> net w' = [] \<and> clock w' = clock w
              \<and> reads w \<le> reads w'"
  using assms
proof (induction cs arbitrary: w ups exps)
  case Nil
  then show ?case by simp
next
  case (Cons chid cs)
  let ?key = "toBinaryKey uaid chid"
  let ?rest = "zip (map (toBinaryKey uaid) cs) cs"
  note quiet = Cons.prems
  have same: "deleted_since w1 uaid sinceUnix = deleted_since w uaid sinceUnix"
      "live_since w1 uaid sinceUnix = live_since w uaid sinceUnix"
    if "recs w1 = recs w" for w1
    using that by (simp_all add: deleted_since_def live_since_def stored_rec_def fun_eq_iff)
  have step: "case FetchAll_loop w1 ?rest sinceUnix ups1 exps1 of
           ((updates, expired), w') \<Rightarrow>
              expired = exps1 @ filter (deleted_since w uaid sinceUnix) cs
              \<and> (\<exists>us. updates = ups1 @ us
                    \<and> list_all2 (update_of w w' uaid) (filter (live_since w uaid sinceUnix) cs) us)
              \<and> recs w' = recs w \<and> net w' = [] \<and> clock w' = clock w
              \<and> reads w1 \<le> reads w'"
    if w1: "net w1 = []" "recs w1 = recs w" "clock w1 = clock w" "reads w \<le> reads w1"
    for w1 ups1 exps1
  proof -
    obtain updates expired w' where
      run: "FetchAll_loop w1 ?rest sinceUnix ups1 exps1 = ((updates, expired), w')"
      by (metis surj_pair)
    from Cons.IH [where w = w1 and ups = ups1 and exps = exps1, OF w1(1)] run
    obtain us where ih: "expired = exps1 @ filter (deleted_since w1 uaid sinceUnix) cs"
        "updates = ups1 @ us"
        "list_all2 (update_of w1 w' uaid) (filter (live_since w1 uaid sinceUnix) cs) us"
        "recs w' = recs w1" "net w' = []" "clock w' = clock w1" "reads w1 \<le> reads w'"
      by auto
    have "list_all2 (update_of w w' uaid) (filter (live_since w1 uaid sinceUnix) cs) us"
      by (rule list_all2_mono [OF ih(3)]) (rule update_of_earlier [OF _ w1(2,3,4)])
    moreover have "filter (live_since w1 uaid sinceUnix) cs = filter (live_since w uaid sinceUnix) cs"
      by (simp only: same [OF w1(2)])
    ultimately have "list_all2 (update_of w w' uaid) (filter (live_since w uaid sinceUnix) cs) us"
      by simp
    then show ?thesis
      using run ih w1 by (auto simp: same [OF w1(2)])
  qed
  show ?case
  proof (cases "recs w ?key")
    case None
    then have skip: "\<not> deleted_since w uaid sinceUnix chid" "\<not> live_since w uaid sinceUnix chid"
      by (simp_all add: deleted_since_def live_since_def stored_rec_def)
    have "FetchAll_loop w ((?key, chid) # ?rest) sinceUnix ups exps =
            FetchAll_loop w ?rest sinceUnix ups exps"
      using None quiet by (simp add: Get_cr_quiet)
    then show ?thesis
      using step [where ?w1.0 = w and ?ups1.0 = ups and ?exps1.0 = exps] quiet skip by simp
  next
    case (Some stored)
    obtain rec ttl where stored: "stored = (rec, ttl)" by (cases stored)
    have get: "Get_cr w ?key = (Inr rec, w)"
      using Some stored quiet by (simp add: Get_cr_quiet)
    have rec: "stored_rec w uaid chid = Some rec"
      using Some stored by (simp add: stored_rec_def)
    consider (old) "word_sless (L rec) sinceUnix"
      | (live_stamped) "\<not> word_sless (L rec) sinceUnix" "S rec = LIVE" "V rec = 0"
      | (live) "\<not> word_sless (L rec) sinceUnix" "S rec = LIVE" "V rec \<noteq> 0"
      | (deleted) "\<not> word_sless (L rec) sinceUnix" "S rec = DELETED"
      | (other) "\<not> word_sless (L rec) sinceUnix" "S rec \<noteq> LIVE" "S rec \<noteq> DELETED"
      by blast
    then show ?thesis
    proof cases
      case old
      then have skip: "\<not> deleted_since w uaid sinceUnix chid" "\<not> live_since w uaid sinceUnix chid"
        using rec by (simp_all add: deleted_since_def live_since_def touched_since_def word_sless_alt)
      have "FetchAll_loop w ((?key, chid) # ?rest) sinceUnix ups exps =
              FetchAll_loop w ?rest sinceUnix ups exps"
        using get old by simp
      then show ?thesis
        using step [where ?w1.0 = w and ?ups1.0 = ups and ?exps1.0 = exps] quiet skip by simp
    next
      case live_stamped
      let ?w2 = "w\<lparr>reads := Suc (reads w)\<rparr>"
      let ?u = "\<lparr>ChannelID = hex_EncodeToString chid, Version = clock w (reads w)\<rparr>"
      have sel: "\<not> deleted_since w uaid sinceUnix chid" "live_since w uaid sinceUnix chid"
        using rec live_stamped
        by (simp_all add: deleted_since_def live_since_def touched_since_def word_sless_alt
            states_distinct)
      have unfold: "FetchAll_loop w ((?key, chid) # ?rest) sinceUnix ups exps =
              FetchAll_loop ?w2 ?rest sinceUnix (ups @ [?u]) exps"
        using get live_stamped by (simp add: time_Now_Unix_def)
      obtain updates expired w' where
        run: "FetchAll_loop ?w2 ?rest sinceUnix (ups @ [?u]) exps = ((updates, expired), w')"
        by (metis surj_pair)
      from step [where ?w1.0 = ?w2 and ?ups1.0 = "ups @ [?u]" and ?exps1.0 = exps] run quiet
      obtain us where tl: "expired = exps @ filter (deleted_since w uaid sinceUnix) cs"
          "updates = (ups @ [?u]) @ us"
          "list_all2 (update_of w w' uaid) (filter (live_since w uaid sinceUnix) cs) us"
          "recs w' = recs w" "net w' = []" "clock w' = clock w" "Suc (reads w) \<le> reads w'"
        by auto
      have "reads w \<in> {reads w ..< reads w'}"
        using tl(7) by simp
      then have "update_of w w' uaid chid ?u"
        using rec live_stamped by (simp add: update_of_def)
      then have "list_all2 (update_of w w' uaid)
                   (filter (live_since w uaid sinceUnix) (chid # cs)) (?u # us)"
        using tl(3) sel by simp
      moreover have "updates = ups @ (?u # us)"
        using tl(2) by simp
      ultimately have "\<exists>us'. updates = ups @ us'
          \<and> list_all2 (update_of w w' uaid) (filter (live_since w uaid sinceUnix) (chid # cs)) us'"
        by blast
      then show ?thesis
        using unfold run tl sel by simp
    next
      case live
      let ?u = "\<lparr>ChannelID = hex_EncodeToString chid, Version = V rec\<rparr>"
      have sel: "\<not> deleted_since w uaid sinceUnix chid" "live_since w uaid sinceUnix chid"
        using rec live
        by (simp_all add: deleted_since_def live_since_def touched_since_def word_sless_alt
            states_distinct)
      have unfold: "FetchAll_loop w ((?key, chid) # ?rest) sinceUnix ups exps =
              FetchAll_loop w ?rest sinceUnix (ups @ [?u]) exps"
        using get live by simp
      obtain updates expired w' where
        run: "FetchAll_loop w ?rest sinceUnix (ups @ [?u]) exps = ((updates, expired), w')"
        by (metis surj_pair)
      from step [where ?w1.0 = w and ?ups1.0 = "ups @ [?u]" and ?exps1.0 = exps] run quiet
      obtain us where tl: "expired = exps @ filter (deleted_since w uaid sinceUnix) cs"
          "updates = (ups @ [?u]) @ us"
          "list_all2 (update_of w w' uaid) (filter (live_since w uaid sinceUnix) cs) us"
          "recs w' = recs w" "net w' = []" "clock w' = clock w" "reads w \<le> reads w'"
        by auto
      have "update_of w w' uaid chid ?u"
        using rec live by (simp add: update_of_def)
      then have "list_all2 (update_of w w' uaid)
                   (filter (live_since w uaid sinceUnix) (chid # cs)) (?u # us)"
        using tl(3) sel by simp
      moreover have "updates = ups @ (?u # us)"
        using tl(2) by simp
      ultimately have "\<exists>us'. updates = ups @ us'
          \<and> list_all2 (update_of w w' uaid) (filter (live_since w uaid sinceUnix) (chid # cs)) us'"
        by blast
      then show ?thesis
        using unfold run tl sel by simp
    next
      case deleted
      have sel: "deleted_since w uaid sinceUnix chid" "\<not> live_since w uaid sinceUnix chid"
        using rec deleted
        by (simp_all add: deleted_since_def live_since_def touched_since_def word_sless_alt
            states_distinct)
      have "FetchAll_loop w ((?key, chid) # ?rest) sinceUnix ups exps =
              FetchAll_loop w ?rest sinceUnix ups (exps @ [chid])"
        using get deleted by (simp add: states_distinct)
      then show ?thesis
        using step [where ?w1.0 = w and ?ups1.0 = ups and ?exps1.0 = "exps @ [chid]"] quiet sel by simp
    next
      case other
      then have skip: "\<not> deleted_since w uaid sinceUnix chid" "\<not> live_since w uaid sinceUnix chid"
        using rec by (simp_all add: deleted_since_def live_since_def)
      have "FetchAll_loop w ((?key, chid) # ?rest) sinceUnix ups exps =
              FetchAll_loop w ?rest sinceUnix ups exps"
        using get other by simp
      then show ?thesis
        using step [where ?w1.0 = w and ?ups1.0 = ups and ?exps1.0 = exps] quiet skip by simp
    qed
  qed
qed

section \<open>The operations of the adapter, claim by claim\<close>

subsection \<open>Update\<close>

text \<open>
  Claim C1: for a non-empty device ID and a non-empty channel ID, \<^verbatim>\<open>Update\<close> loads
  the record stored under the primary key. When no record is stored, or the stored
  record is marked \<^verbatim>\<open>DELETED\<close>, the call is the call of \<^verbatim>\<open>Register\<close> with the
  same arguments: same result, same final state. Otherwise it ends without error and
  has overwritten the record with state \<^verbatim>\<open>LIVE\<close>, the given version and the time of
  the write (the second reading of the clock in the call), under the time-to-live of
  live channels. The surroundings are undisturbed: every pool acquisition and driver
  call goes through.
\<close>

theorem Update_loads_then_registers_or_overwrites:
  assumes "uaid \<noteq> []" and "chid \<noteq> []" and "pool w = []" and "net w = []"
  shows "case recs w (toBinaryKey uaid chid) of
           None \<Rightarrow> Update w uaid chid version = Register w uaid chid version
         | Some (rec, ttl) \<Rightarrow>
             if S rec = DELETED
             then Update w uaid chid version = Register w uaid chid version
             else Update w uaid chid version =
                    (Ok (),
                     w\<lparr>reads := reads w + 2,
                       recs := (recs w)(toBinaryKey uaid chid \<mapsto>
                         (\<lparr>S = LIVE, V = version, L = clock w (reads w + 1)\<rparr>,
                          ChannelTimeout (config w)))\<rparr>)"
proof -
  let ?key = "toBinaryKey uaid chid"
  have key: "?key \<noteq> []"
    using length_toBinaryKey [of uaid chid] by auto
  show ?thesis
  proof (cases "recs w ?key")
    case None
    then have "fetchRec w ?key = (Inr \<lparr>S = 0, V = 0, L = 0\<rparr>, w)"
      using assms key by (simp add: fetchRec_quiet)
    then show ?thesis
      using None assms(1,2) by (simp add: Update_def DELETED_def)
  next
    case (Some stored)
    obtain rec ttl where stored: "stored = (rec, ttl)" by (cases stored)
    have fetch: "fetchRec w ?key = (Inr rec, w)"
      using assms key Some stored by (simp add: fetchRec_quiet)
    show ?thesis
    proof (cases "S rec = DELETED")
      case True
      then show ?thesis
        using Some stored fetch assms(1,2) by (simp add: Update_def)
    next
      case False
      let ?w2 = "w\<lparr>reads := Suc (reads w)\<rparr>"
      have "storeRec ?w2 ?key (Some \<lparr>S = LIVE, V = version, L = clock w (reads w)\<rparr>) =
              (None, ?w2\<lparr>reads := Suc (reads ?w2),
                 recs := (recs ?w2)(?key \<mapsto>
                   (\<lparr>S = LIVE, V = version, L = clock ?w2 (reads ?w2)\<rparr>,
                    ChannelTimeout (config ?w2)))\<rparr>)"
        using assms key by (subst storeRec_quiet) (simp_all add: states_distinct)
      then show ?thesis
        using Some stored fetch False assms(1,2)
        by (simp add: Update_def time_Now_Unix_def)
    qed
  qed
qed

theorem Update_loads_then_registers_or_overwrites_witness:
  "Update w_registered [1] [2] 42 =
     (Ok (), w_registered\<lparr>reads := 2,
        recs := (recs w_registered)(toBinaryKey [1] [2] \<mapsto>
           (\<lparr>S = LIVE, V = 42, L = 1400000001\<rparr>, ChannelTimeout ConfigStruct))\<rparr>)
   \<and> Update w_empty [1] [2] 42 = Register w_empty [1] [2] 42
   \<and> Update w_deleted [1] [2] 42 = Register w_deleted [1] [2] 42"
proof -
  have "Update w_registered [1] [2] 42 =
     (Ok (), w_registered\<lparr>reads := 2,
        recs := (recs w_registered)(toBinaryKey [1] [2] \<mapsto>
           (\<lparr>S = LIVE, V = 42, L = 1400000001\<rparr>, ChannelTimeout ConfigStruct))\<rparr>)"
    using Update_loads_then_registers_or_overwrites [of "[1]" "[2]" w_registered 42]
    by (simp add: w_registered_def world_of_def states_distinct)
  moreover have "Update w_empty [1] [2] 42 = Register w_empty [1] [2] 42"
    using Update_loads_then_registers_or_overwrites [of "[1]" "[2]" w_empty 42]
    by (simp add: w_empty_def world_of_def)
  moreover have "Update w_deleted [1] [2] 42 = Register w_deleted [1] [2] 42"
    using Update_loads_then_registers_or_overwrites [of "[1]" "[2]" w_deleted 42]
    by (simp add: w_deleted_def world_of_def)
  ultimately show ?thesis
    by blast
qed

text \<open>
  Claim C3 says that a record stored by \<^verbatim>\<open>Register\<close> or \<^verbatim>\<open>Update\<close> with state
  \<^verbatim>\<open>LIVE\<close> has a version above 0. \<^verbatim>\<open>Register\<close> marks the record live only for a
  version other than 0; \<^verbatim>\<open>Update\<close> has no such test. Registering channel \<open>[2]\<close> of
  device \<open>[1]\<close> with version 0 and then updating it with version 0 ends, without error,
  with a stored record that is \<^verbatim>\<open>LIVE\<close> and has version 0.
\<close>

theorem Update_stores_live_version_zero:
  "(case Register w_empty [1] [2] 0 of
      (r1, w1) \<Rightarrow>
        (case Update w1 [1] [2] 0 of
           (r2, w2) \<Rightarrow>
             r1 = Ok () \<and> r2 = Ok ()
             \<and> stored_rec w1 [1] [2] = Some \<lparr>S = REGISTERED, V = 0, L = 1400000001\<rparr>
             \<and> stored_rec w2 [1] [2] = Some \<lparr>S = LIVE, V = 0, L = 1400000003\<rparr>))"
  by code_simp

subsection \<open>Exists and the stored lists of channel IDs\<close>

text \<open>
  Claim C2 says that \<^verbatim>\<open>Exists\<close> is false for a device without a stored list of
  channel IDs. \<^verbatim>\<open>fetchAppIDArray\<close> answers a missing key with no error, and
  \<^verbatim>\<open>Exists\<close> tests only for an error: with nothing stored at all, \<^verbatim>\<open>Exists\<close> of
  device \<open>[1]\<close> is true.
\<close>

theorem Exists_true_for_missing_key:
  "sets w_empty [1] = None
   \<and> fst (Get_ia w_empty [1]) = Inl (ClientError ''NOT FOUND'')
   \<and> fst (Exists w_empty [1]) = Ok True"
  by (simp add: w_empty_def world_of_def Exists_def fetchAppIDArray_quiet Get_ia_quiet)

text \<open>
  Claim C5 says that a stored list of channel IDs is read back without duplicates and
  with every distinct ID kept. The paring loop removes position \<open>i + dup\<close>, and it
  keeps slicing \<^verbatim>\<open>result[i+1:]\<close> up to the length the list had when the loop began:
  after a removal the last round slices beyond the shortened list. For the stored list
  \<open>[[2], [2]]\<close> the first round removes one entry and the second round panics, so the
  read returns nothing.
\<close>

theorem fetchAppIDArray_panics_on_duplicate:
  "sets w_duplicate [1] = Some [[2], [2]]
   \<and> remove (slice_of [[2], [2]]) 0 = Some ([[2], [2]], 1)
   \<and> pare ([[2], [2]], 1) 2 1 = None
   \<and> fst (fetchAppIDArray w_duplicate [1]) = Panic"
  by code_simp

subsection \<open>FetchAll\<close>

text \<open>
  Claim C4, as stated: \<^verbatim>\<open>FetchAll\<close> returns as updates the stored live records that
  were touched at or after the cutoff, and as expired the channel IDs of the stored
  deleted records. The test against the cutoff comes before the test of the state, so
  a deleted record that was last touched before the cutoff is not reported: channel
  \<open>[5]\<close> below is stored as deleted and is not among the expired.
\<close>

theorem FetchAll_skips_old_deleted:
  "sets w_channels [1] = Some [[2], [3], [4], [5], [6]]
   \<and> stored_rec w_channels [1] [5] = Some \<lparr>S = DELETED, V = 7, L = 1399999000\<rparr>
   \<and> fst (FetchAll w_channels [1] 1400000000)
        = Ok ([\<lparr>ChannelID = ''02'', Version = 7\<rparr>,
               \<lparr>ChannelID = ''03'', Version = 1400000000\<rparr>], [[4]])"
  by code_simp

text \<open>
  Claim C4, amended: let \<open>chids\<close> be the stored list of channel IDs of the device, free
  of duplicates, and let the surroundings be undisturbed. Then \<^verbatim>\<open>FetchAll\<close> returns
  without error. Its updates are, in the order of \<open>chids\<close>, one for each channel whose
  stored record is live and was touched at or after the cutoff: the hex-encoded channel
  ID with the stored version, or, when the stored version is 0, with a reading of the
  clock made during the call. Its expired list holds, in the order of \<open>chids\<close>, the
  channels whose stored record is deleted and was touched at or after the cutoff.
\<close>

theorem FetchAll_since:
  assumes "pool w = []" and "net w = []" and "distinct (device_set w uaid)"
  shows "case FetchAll w uaid sinceUnix of
           (Ok (updates, expired), w') \<Rightarrow>
              list_all2 (update_of w w' uaid)
                (filter (live_since w uaid sinceUnix) (device_set w uaid)) updates
              \<and> expired = filter (deleted_since w uaid sinceUnix) (device_set w uaid)
         | (Err err, w') \<Rightarrow> False
         | (Panic, w') \<Rightarrow> False"
proof -
  let ?chids = "device_set w uaid"
  have fetch: "fetchAppIDArray w uaid = (Ok ?chids, w)"
    using assms
    by (cases "uaid = []"; cases "sets w uaid") (simp_all add: fetchAppIDArray_quiet device_set_def)
  obtain updates expired w' where
    run: "FetchAll_loop w (zip (map (toBinaryKey uaid) ?chids) ?chids) sinceUnix [] []
            = ((updates, expired), w')"
    by (metis surj_pair)
  have "FetchAll w uaid sinceUnix = (Ok (updates, expired), w')"
    using fetch run assms(1) by (simp add: FetchAll_def getClient_quiet)
  moreover have "list_all2 (update_of w w' uaid) (filter (live_since w uaid sinceUnix) ?chids) updates
      \<and> expired = filter (deleted_since w uaid sinceUnix) ?chids"
    using FetchAll_loop_quiet [OF assms(2), where uaid = uaid and cs = ?chids
        and sinceUnix = sinceUnix and ups = "[]" and exps = "[]"] run
    by auto
  ultimately show ?thesis
    by simp
qed

theorem FetchAll_since_witness:
  "device_set w_channels [1] = [[2], [3], [4], [5], [6]]
   \<and> (case FetchAll w_channels [1] 1400000000 of
        (Ok (updates, expired), w') \<Rightarrow>
           list_all2 (update_of w_channels w' [1])
             (filter (live_since w_channels [1] 1400000000) (device_set w_channels [1])) updates
           \<and> expired = filter (deleted_since w_channels [1] 1400000000) (device_set w_channels [1])
      | (Err err, w') \<Rightarrow> False
      | (Panic, w') \<Rightarrow> False)"
proof -
  have chids: "device_set w_channels [1] = [[2], [3], [4], [5], [6]]"
    by (simp add: w_channels_def world_of_def device_set_def)
  have quiet: "pool w_channels = []" "net w_channels = []"
    by (simp_all add: w_channels_def world_of_def)
  have "distinct (device_set w_channels [1])"
    by (simp add: chids)
  from FetchAll_since [OF quiet this, of 1400000000] chids show ?thesis
    by blast
qed

subsection \<open>Unregister\<close>

text \<open>
  Claim C6: let \<^verbatim>\<open>Unregister\<close> have read the list \<open>chids\<close> of the device. It returns
  the invalid-channel error exactly when the channel is not in \<open>chids\<close>. When the
  channel is in \<open>chids\<close> and the list without it has been written, the stored list no
  longer holds the channel; the retry loop runs at most 3 rounds; and \<^verbatim>\<open>Unregister\<close>
  returns \<^verbatim>\<open>nil\<close> whatever became of the rounds. In undisturbed surroundings one
  round is enough, and it leaves the record marked \<^verbatim>\<open>DELETED\<close> under the
  time-to-live of deleted records.
\<close>

theorem Unregister_removes_and_marks:
  assumes "fetchAppIDArray w uaid = (Ok chids, w1)"
  shows "(fst (Unregister w uaid chid) = Err (Sp InvalidChannelError) \<longleftrightarrow> chid \<notin> set chids)
     \<and> (chid \<in> set chids \<longrightarrow>
          storeAppIDArray w1 uaid (remove1 chid chids) = (None, w2) \<longrightarrow>
            (case Unregister_retry w2 (toBinaryKey uaid chid) 0 of
               (rounds, w3) \<Rightarrow>
                 Unregister w uaid chid = (Ok (), w3)
                 \<and> rounds \<le> 3
                 \<and> sets w3 uaid = Some (Sort (remove1 chid chids))
                 \<and> chid \<notin> set (Sort (remove1 chid chids))
                 \<and> (pool w2 = [] \<and> net w2 = [] \<longrightarrow>
                      rounds = 1
                      \<and> map_option (\<lambda>(rec, ttl). (S rec, ttl)) (recs w3 (toBinaryKey uaid chid))
                          = Some (DELETED, UnregisterTimeout (config w2)))))"
proof (cases "chid \<in> set chids")
  case False
  then have "IndexOf chids chid < 0"
    by (simp add: IndexOf_notin)
  then have "fst (Unregister w uaid chid) = Err (Sp InvalidChannelError)"
    using assms by (simp add: Unregister_def)
  then show ?thesis
    using False by simp
next
  case True
  let ?key = "toBinaryKey uaid chid"
  have pos: "\<not> IndexOf chids chid < 0"
    using True by (simp add: IndexOf_notin)
  obtain rest where rest: "remove (slice_of chids) (IndexOf chids chid) = Some rest"
      "elems rest = remove1 chid chids"
    using remove_at_IndexOf [OF True] by blast
  have unfold: "Unregister w uaid chid =
      (case storeAppIDArray w1 uaid (remove1 chid chids) of
         (Some err, w2) \<Rightarrow> (Err err, w2)
       | (None, w2) \<Rightarrow> (Ok (), snd (Unregister_retry w2 ?key 0)))"
    using assms pos rest by (simp add: Unregister_def Let_def)
  have not_invalid: "fst (Unregister w uaid chid) \<noteq> Err (Sp InvalidChannelError)"
  proof (cases "storeAppIDArray w1 uaid (remove1 chid chids)")
    case (Pair e w')
    then show ?thesis
      using unfold storeAppIDArray_error [of w1 uaid "remove1 chid chids" _ w']
      by (cases e) auto
  qed
  have gone: "chid \<notin> set (Sort (remove1 chid chids))"
    using fetchAppIDArray_distinct [OF assms] by (simp add: set_Sort)
  have after: "storeAppIDArray w1 uaid (remove1 chid chids) = (None, w2) \<Longrightarrow>
       (case Unregister_retry w2 ?key 0 of
          (rounds, w3) \<Rightarrow>
             Unregister w uaid chid = (Ok (), w3)
             \<and> rounds \<le> 3
             \<and> sets w3 uaid = Some (Sort (remove1 chid chids))
             \<and> chid \<notin> set (Sort (remove1 chid chids))
             \<and> (pool w2 = [] \<and> net w2 = [] \<longrightarrow>
                  rounds = 1
                  \<and> map_option (\<lambda>(rec, ttl). (S rec, ttl)) (recs w3 ?key)
                      = Some (DELETED, UnregisterTimeout (config w2))))"
  proof -
    assume stored: "storeAppIDArray w1 uaid (remove1 chid chids) = (None, w2)"
    obtain rounds w3 where loop: "Unregister_retry w2 ?key 0 = (rounds, w3)"
      by (cases "Unregister_retry w2 ?key 0")
    have 1: "Unregister w uaid chid = (Ok (), w3)"
      using unfold stored loop by simp
    have 2: "rounds \<le> 3"
      using Unregister_retry_rounds [of 0 w2 ?key] loop by simp
    have 3: "sets w3 uaid = Some (Sort (remove1 chid chids))"
      using Unregister_retry_sets [of w2 ?key 0] loop storeAppIDArray_stored [OF stored]
      by simp
    have key: "?key \<noteq> []"
      using length_toBinaryKey [of uaid chid] by auto
    have 4: "pool w2 = [] \<and> net w2 = [] \<longrightarrow>
                  rounds = 1
                  \<and> map_option (\<lambda>(rec, ttl). (S rec, ttl)) (recs w3 ?key)
                      = Some (DELETED, UnregisterTimeout (config w2))"
      using loop key by (auto simp: Unregister_retry_quiet)
    show ?thesis
      using loop 1 2 3 4 gone by simp
  qed
  show ?thesis
    using True not_invalid after by blast
qed

theorem Unregister_removes_and_marks_witness:
  "fst (Unregister w_marking_fails [1] [2]) = Ok ()
   \<and> sets (snd (Unregister w_marking_fails [1] [2])) [1] = Some [[3]]
   \<and> stored_rec (snd (Unregister w_marking_fails [1] [2])) [1] [2]
        = Some \<lparr>S = LIVE, V = 7, L = 1399999000\<rparr>
   \<and> fst (Unregister w_marking_fails [1] [9]) = Err (Sp InvalidChannelError)
   \<and> fst (Unregister w_live [1] [2]) = Ok ()
   \<and> map_option (\<lambda>(rec, ttl). (S rec, ttl))
         (recs (snd (Unregister w_live [1] [2])) (toBinaryKey [1] [2]))
        = Some (DELETED, UnregisterTimeout ConfigStruct)"
proof -
  let ?key = "toBinaryKey [1] [2]"
  let ?recs = "[?key \<mapsto> (\<lparr>S = LIVE, V = 7, L = 1399999000\<rparr>, ChannelTimeout ConfigStruct)]"
  let ?w1 = "world_of [[1] \<mapsto> [[2], [3]]] ?recs [Acquired, PoolClosed, PoolSaturated, PoolClosed] []"
  let ?w2 = "world_of [[1] \<mapsto> [[3]]] ?recs [PoolClosed, PoolSaturated, PoolClosed] []"
  let ?w3 = "world_of [[1] \<mapsto> [[3]]] ?recs [] []"
  have "pare (slice_of [[2], [3 :: byte]]) (Suc (Suc 0)) 0 = Some (slice_of [[2], [3]])"
    using pare_all [of "[[2], [3 :: byte]]"] by simp
  then have got: "fetchAppIDArray w_marking_fails [1] = (Ok [[2], [3]], ?w1)"
    by (simp add: w_marking_fails_def world_of_def fetchAppIDArray_def getClient_def
        Get_ia_quiet elems_slice_of)
  have sorted: "Sort [[3 :: byte]] = [[3]]"
    by simp
  then have "storeAppIDArray ?w1 [1] [[3]] = (None, ?w2)"
    by (simp add: world_of_def storeAppIDArray_def getClient_def Set_ia_quiet)
  then have put: "storeAppIDArray ?w1 [1] (remove1 [2] [[2], [3]]) = (None, ?w2)"
    by simp
  have loop: "Unregister_retry ?w2 ?key 0 = (3, ?w3)"
    by (simp add: world_of_def Unregister_retry.simps [of _ _ 0]
        Unregister_retry.simps [of _ _ "Suc 0"] Unregister_retry.simps [of _ _ "Suc (Suc 0)"]
        Unregister_retry.simps [of _ _ "Suc (Suc (Suc 0))"]
        fetchRec_def getClient_def length_toBinaryKey)
  from Unregister_removes_and_marks [OF got, of "[2]" ?w2] put loop
  have "Unregister w_marking_fails [1] [2] = (Ok (), ?w3)"
    by simp
  then have present: "fst (Unregister w_marking_fails [1] [2]) = Ok ()"
      "sets (snd (Unregister w_marking_fails [1] [2])) [1] = Some [[3]]"
      "stored_rec (snd (Unregister w_marking_fails [1] [2])) [1] [2]
         = Some \<lparr>S = LIVE, V = 7, L = 1399999000\<rparr>"
    by (simp_all add: world_of_def stored_rec_def)
  from Unregister_removes_and_marks [OF got, of "[9]" ?w2]
  have absent: "fst (Unregister w_marking_fails [1] [9]) = Err (Sp InvalidChannelError)"
    by simp
  have got': "fetchAppIDArray w_live [1] = (Ok [[2], [3]], w_live)"
    by (simp add: w_live_def world_of_def fetchAppIDArray_quiet)
  have "storeAppIDArray w_live [1] [[3]] = (None, ?w3)"
    using sorted
    by (simp add: w_live_def world_of_def storeAppIDArray_def getClient_quiet Set_ia_quiet)
  then have put': "storeAppIDArray w_live [1] (remove1 [2] [[2], [3]]) = (None, ?w3)"
    by simp
  obtain rounds w4 where loop': "Unregister_retry ?w3 ?key 0 = (rounds, w4)"
    by (metis surj_pair)
  from Unregister_removes_and_marks [OF got', of "[2]" ?w3] put' loop'
  have "Unregister w_live [1] [2] = (Ok (), w4)"
    and "map_option (\<lambda>(rec, ttl). (S rec, ttl)) (recs w4 ?key)
           = Some (DELETED, UnregisterTimeout ConfigStruct)"
    by (simp_all add: world_of_def)
  then have marked: "fst (Unregister w_live [1] [2]) = Ok ()"
      "map_option (\<lambda>(rec, ttl). (S rec, ttl)) (recs (snd (Unregister w_live [1] [2])) ?key)
         = Some (DELETED, UnregisterTimeout ConfigStruct)"
    by simp_all
  show ?thesis
    using present absent marked by simp
qed

section \<open>The pool on release\<close>

text \<open>The round for a released connection, in one equation.\<close>

lemma run_round_Release:
  "run_round cfg st (Release c) =
     (if MaxConns cfg \<le> capacity st then st\<lparr>closed := closed st @ [c]\<rparr>
      else st\<lparr>clients := clients st @ [c]\<rparr>)"
  by simp

text \<open>
  Claim C9 says that a released connection is closed only when putting it back would
  take the pool beyond \<^verbatim>\<open>MaxConns\<close> connections, and is put back on the idle list
  otherwise. The loop closes it whenever \<open>capacity\<close> has reached \<^verbatim>\<open>MaxConns\<close>, and
  \<open>capacity\<close> counts the released connection itself. With \<^verbatim>\<open>MaxConns\<close> 1: the pool
  takes connection 7, hands it out, and closes it on release although it is the only
  connection; the idle list stays empty, \<open>capacity\<close> stays 1, and the next acquisition
  gets nothing.
\<close>

theorem run_closes_only_connection_on_release:
  "run (ConfigStruct\<lparr>MaxConns := 1\<rparr>) pool_start
       [NewClient 7, Acquisition (Inr 8), Release 7, Acquisition (Inr 9)]
     = \<lparr>clients = [], capacity = 1, isClosing = False, lastErr = None,
        closed = [7], answers = [Sent 7, Nothing]\<rparr>"
  by (simp add: ConfigStruct_def pool_start_def)

end
